theory Spec2Isabelle
  imports Complex_Main
begin

section \<open>Data model of the heartbeat engine\<close>

text \<open>
  Modelled from the spec: the headers that declare \<^verbatim>\<open>heartbeat_t\<close>, the shared
  state and the log record are not among the sources. The records below have the
  fields that \<^verbatim>\<open>heartbeat-accuracy-power-shared.c\<close> uses, under the names it uses,
  with the types of the spec's data model and of the uses in the code:
  \<^item> integer fields (\<^verbatim>\<open>int64_t\<close> timestamps, counters and indices, the \<^verbatim>\<open>int\<close>
    tag) are unbounded integers: no claim is about wrap-around;
  \<^item> \<^verbatim>\<open>double\<close> and \<^verbatim>\<open>float\<close> values are real numbers. The definitions of
    \<open>hb_window_average_accuracy\<close> and \<open>heartbeat_acc\<close> compute exactly; their
    variants \<open>hb_window_average_accuracy_fp\<close> and \<open>heartbeat_acc_fp\<close> round
    every operation. A quotient with divisor zero is \<open>0\<close> in HOL and an infinity or
    NaN in C: the averages, rates and powers that the theorems below state have
    non-zero divisors, which for the powers takes a strictly increasing clock;
  \<^item> an array is a list; a read or write outside it is undefined behaviour in C and an
    error value in the model;
  \<^item> the text log is the list of chunks written so far, one chunk per \<^verbatim>\<open>fflush\<close>,
    each row being the record that \<^verbatim>\<open>fprintf\<close> formats (the header line is left
    out); \<open>None\<close> is the \<^verbatim>\<open>NULL\<close> file;
  \<^item> the clock reading and the value returned by the energy backend are inputs of
    each call.
\<close>

record heartbeat_record_t =
  beat :: int
  tag :: int
  timestamp :: int
  global_rate :: real
  window_rate :: real
  instant_rate :: real
  global_accuracy :: real
  window_accuracy :: real
  instant_accuracy :: real
  global_power :: real
  window_power :: real
  instant_power :: real

text \<open>The shared state behind \<^verbatim>\<open>hb->state\<close>.\<close>

record HB_global_state_t =
  counter :: int
  buffer_index :: int
  read_index :: int
  buffer_depth :: int
  window_size :: int
  valid :: bool

text \<open>
  \<^verbatim>\<open>heartbeat_t\<close>. The fields \<^verbatim>\<open>global_accuracy\<close> and \<^verbatim>\<open>global_power\<close> of the C
  struct carry the prefix \<open>hb_\<close> here, the log array is \<open>hb_log\<close>.
\<close>

record heartbeat_t =
  state :: HB_global_state_t
  hb_log :: "heartbeat_record_t list"
  text_file :: "heartbeat_record_t list list option"
  first_timestamp :: int
  last_timestamp :: int
  last_energy :: real
  window :: "int list"
  accuracy_window :: "real list"
  power_window :: "real list"
  current_index :: int
  steady_state :: bool
  last_average_time :: real
  last_average_accuracy :: real
  last_window_time :: real
  last_window_energy :: real
  hb_global_accuracy :: real
  hb_global_power :: real
  total_energy :: real

datatype hb_error = Window_out_of_bounds | Log_out_of_bounds | Division_by_zero

definition in_bounds :: "int \<Rightarrow> 'a list \<Rightarrow> bool" where
  "in_bounds i xs = (0 \<le> i \<and> i < int (length xs))"

section \<open>Initialisation\<close>

text \<open>
  \<^verbatim>\<open>heartbeat_acc_pow_init\<close>, lines 90 to 127, for the fields modelled here. The
  argument \<open>mem\<close> is the memory handed out by \<^verbatim>\<open>malloc\<close>, \<^verbatim>\<open>HB_alloc_state\<close> and
  \<^verbatim>\<open>HB_alloc_log\<close>: its contents are arbitrary, its three windows have
  \<open>window_size\<close> slots and its log has \<open>buffer_depth\<close> slots. \<open>None\<close> is the
  \<^verbatim>\<open>NULL\<close> returned when an allocation fails. \<open>with_log\<close> tells whether a log name
  was given.
\<close>

definition heartbeat_acc_pow_init ::
  "int \<Rightarrow> int \<Rightarrow> bool \<Rightarrow> heartbeat_t \<Rightarrow> heartbeat_t option" where
  "heartbeat_acc_pow_init window_size' buffer_depth' with_log mem =
     (if int (length (hb_log mem)) = buffer_depth'
         \<and> int (length (window mem)) = window_size'
         \<and> int (length (accuracy_window mem)) = window_size'
         \<and> int (length (power_window mem)) = window_size'
      then Some (mem
        \<lparr> state := (state mem)
            \<lparr> counter := 0, buffer_index := 0, read_index := 0,
              buffer_depth := buffer_depth', window_size := window_size',
              valid := False \<rparr>,
          text_file := (if with_log then Some [] else None),
          first_timestamp := -1,
          last_timestamp := -1,
          current_index := 0,
          steady_state := False,
          hb_global_accuracy := 0,
          hb_global_power := 0,
          total_energy := 0 \<rparr>)
      else None)"

section \<open>Flushing the log\<close>

text \<open>
  \<^verbatim>\<open>hb_flush_buffer\<close>: the rows \<open>0 .. buffer_index - 1\<close> of the log are printed in
  index order and the file is flushed.
\<close>

definition hb_flush_buffer :: "heartbeat_t \<Rightarrow> hb_error + heartbeat_t" where
  "hb_flush_buffer hb =
     (let nrecords = buffer_index (state hb) in
      case text_file hb of
        None \<Rightarrow> Inr hb
      | Some chunks \<Rightarrow>
          if int (length (hb_log hb)) < nrecords then Inl Log_out_of_bounds
          else Inr (hb\<lparr>text_file := Some (chunks @ [take (nat nrecords) (hb_log hb)])\<rparr>))"

section \<open>The sliding window\<close>

text \<open>The summation loop of the warm-up phase: slots \<open>0 .. n - 1\<close>, in index order.\<close>

primrec window_sum :: "real list \<Rightarrow> nat \<Rightarrow> real" where
  "window_sum xs 0 = 0"
| "window_sum xs (Suc n) = window_sum xs n + xs ! n"

text \<open>
  \<^verbatim>\<open>hb_window_average_accuracy\<close>. The result is the new engine together with the
  returned rate and the two values stored through \<^verbatim>\<open>accuracy_rate\<close> and
  \<^verbatim>\<open>power_rate\<close>. The local \<^verbatim>\<open>average_power\<close> of the warm-up branch is
  computed and never used, and is left out.
\<close>

definition hb_window_average_accuracy ::
  "heartbeat_t \<Rightarrow> int \<Rightarrow> real \<Rightarrow> real \<Rightarrow> hb_error + (heartbeat_t \<times> real \<times> real \<times> real)" where
  "hb_window_average_accuracy hb time accuracy energy =
     (let ci = current_index hb; ws = window_size (state hb) in
      if \<not> (in_bounds ci (window hb) \<and> in_bounds ci (accuracy_window hb)
             \<and> in_bounds ci (power_window hb))
      then Inl Window_out_of_bounds
      else if \<not> steady_state hb then
        (let w = (window hb)[nat ci := time];
             aw = (accuracy_window hb)[nat ci := accuracy];
             pw = (power_window hb)[nat ci := energy];
             sum_time = window_sum (map real_of_int w) (nat (ci + 1));
             sum_accuracy = window_sum aw (nat (ci + 1));
             sum_power = window_sum pw (nat (ci + 1));
             window_time = sum_time;
             average_time = sum_time / (real_of_int ci + 1);
             average_accuracy = sum_accuracy / (real_of_int ci + 1);
             window_energy = sum_power;
             ci' = ci + 1;
             hb' = hb\<lparr> window := w, accuracy_window := aw, power_window := pw,
                       last_window_time := window_time,
                       last_window_energy := window_energy,
                       last_average_time := average_time,
                       last_average_accuracy := average_accuracy,
                       current_index := (if ci' = ws then 0 else ci'),
                       steady_state := (if ci' = ws then True else steady_state hb) \<rparr>
         in Inr (hb', (1 / average_time) * 1000000000, average_accuracy,
                 window_energy / (window_time / 1000000000)))
      else
        (let average_time = last_average_time hb
                              - real_of_int (window hb ! nat ci) / real_of_int ws
                              + real_of_int time / real_of_int ws;
             average_accuracy = last_average_accuracy hb
                              - accuracy_window hb ! nat ci / real_of_int ws
                              + accuracy / real_of_int ws;
             window_time = last_window_time hb - real_of_int (window hb ! nat ci)
                              + real_of_int time;
             window_energy = last_window_energy hb - power_window hb ! nat ci + energy;
             ci' = ci + 1;
             hb' = hb\<lparr> last_average_time := average_time,
                       last_average_accuracy := average_accuracy,
                       last_window_time := window_time,
                       last_window_energy := window_energy,
                       window := (window hb)[nat ci := time],
                       accuracy_window := (accuracy_window hb)[nat ci := accuracy],
                       power_window := (power_window hb)[nat ci := energy],
                       current_index := (if ci' = ws then 0 else ci') \<rparr>
         in Inr (hb', (1 / average_time) * 1000000000, average_accuracy,
                 window_energy / (window_time / 1000000000))))"

section \<open>Registering a heartbeat\<close>

text \<open>
  \<^verbatim>\<open>heartbeat_acc\<close>. \<open>time\<close> is the clock reading in nanoseconds
  (\<^verbatim>\<open>tv_sec * 1000000000 + tv_nsec\<close>) and \<open>reading\<close> the value returned by
  \<^verbatim>\<open>hb->em.fread\<close>. The result is the new engine and the returned timestamp.
  The two tests \<^verbatim>\<open>x % buffer_depth == 0\<close> ask whether \<open>buffer_depth\<close> divides
  \<open>x\<close>, which \<open>mod\<close> answers as \<^verbatim>\<open>%\<close> does for a divisor other than 0.
\<close>

definition heartbeat_acc ::
  "heartbeat_t \<Rightarrow> int \<Rightarrow> real \<Rightarrow> int \<Rightarrow> real \<Rightarrow> hb_error + (heartbeat_t \<times> int)" where
  "heartbeat_acc hb0 time reading tag' accuracy =
     (let old_last_time = last_timestamp hb0;
          old_last_energy = last_energy hb0;
          energy = reading / 1000000;
          hb = hb0\<lparr>last_timestamp := time, last_energy := energy\<rparr>
      in
      if first_timestamp hb = -1 then
        if \<not> (in_bounds 0 (window hb) \<and> in_bounds 0 (accuracy_window hb)
               \<and> in_bounds 0 (power_window hb))
        then Inl Window_out_of_bounds
        else if \<not> in_bounds 0 (hb_log hb) then Inl Log_out_of_bounds
        else
          Inr (hb
            \<lparr> first_timestamp := time,
              last_timestamp := time,
              last_energy := energy,
              window := (window hb)[0 := 0],
              accuracy_window := (accuracy_window hb)[0 := accuracy],
              power_window := (power_window hb)[0 := 0],
              hb_log := (hb_log hb)[0 :=
                 \<lparr> beat = counter (state hb), tag = tag', timestamp = time,
                   global_rate = 0, window_rate = 0, instant_rate = 0,
                   global_accuracy = accuracy, window_accuracy = accuracy,
                   instant_accuracy = accuracy,
                   global_power = 0, window_power = 0, instant_power = 0 \<rparr>],
              hb_global_accuracy := hb_global_accuracy hb + accuracy,
              total_energy := 0,
              state := (state hb)
                \<lparr> counter := counter (state hb) + 1,
                  buffer_index := buffer_index (state hb) + 1,
                  valid := True \<rparr> \<rparr>, time)
      else
        (let index = buffer_index (state hb) in
         case hb_window_average_accuracy hb (time - old_last_time) accuracy
                (energy - old_last_energy) of
           Inl e \<Rightarrow> Inl e
         | Inr (hb1, window_heartrate, window_accuracy', window_power') \<Rightarrow>
            (let cnt = counter (state hb1);
                 global_heartrate =
                   ((real_of_int cnt + 1) / real_of_int (time - first_timestamp hb1))
                     * 1000000000;
                 instant_heartrate =
                   1 / real_of_int (time - old_last_time) * 1000000000;
                 acc_sum = hb_global_accuracy hb1 + accuracy;
                 global_accuracy' = acc_sum / real_of_int (cnt + 1);
                 instant_accuracy' = accuracy;
                 energy_sum = total_energy hb1 + (energy - old_last_energy);
                 global_power' =
                   energy_sum / real_of_int (time - first_timestamp hb1) * 1000000000;
                 instant_power' =
                   (energy - old_last_energy) / real_of_int (time - old_last_time)
                     * 1000000000
             in
             if \<not> in_bounds index (hb_log hb1) then Inl Log_out_of_bounds
             else if buffer_depth (state hb1) = 0 then Inl Division_by_zero
             else
               (let hb2 = hb1
                      \<lparr> hb_global_accuracy := acc_sum,
                        total_energy := energy_sum,
                        hb_log := (hb_log hb1)[nat index :=
                          \<lparr> beat = cnt, tag = tag', timestamp = time,
                            global_rate = global_heartrate,
                            window_rate = window_heartrate,
                            instant_rate = instant_heartrate,
                            global_accuracy = global_accuracy',
                            window_accuracy = window_accuracy',
                            instant_accuracy = instant_accuracy',
                            global_power = global_power',
                            window_power = window_power',
                            instant_power = instant_power' \<rparr>],
                        state := (state hb1)
                          \<lparr> buffer_index := buffer_index (state hb1) + 1,
                            counter := cnt + 1,
                            read_index := read_index (state hb1) + 1 \<rparr> \<rparr>
                in
                case (if buffer_index (state hb2) mod buffer_depth (state hb2) = 0
                      then (case (if text_file hb2 \<noteq> None then hb_flush_buffer hb2
                                  else Inr hb2) of
                              Inl e \<Rightarrow> Inl e
                            | Inr hb3 \<Rightarrow>
                                Inr (hb3\<lparr>state := (state hb3)\<lparr>buffer_index := 0\<rparr>\<rparr>))
                      else Inr hb2) of
                  Inl e \<Rightarrow> Inl e
                | Inr hb4 \<Rightarrow>
                    Inr (if read_index (state hb4) mod buffer_depth (state hb4) = 0
                         then hb4\<lparr>state := (state hb4)\<lparr>read_index := 0\<rparr>\<rparr>
                         else hb4, time)))))"

section \<open>The same code in double arithmetic\<close>

text \<open>
  The two definitions above compute with exact reals. The code computes with
  \<^verbatim>\<open>double\<close> and \<^verbatim>\<open>float\<close>: every operation yields its exact result rounded.
  The definitions of this section follow the same lines of the source and take the two
  roundings as arguments, \<open>rd\<close> for an operation on doubles or a conversion to
  \<^verbatim>\<open>double\<close> and \<open>rf\<close> for a conversion to \<^verbatim>\<open>float\<close>; infinities and NaN
  are not modelled. With the identity for both they are the definitions above (lemmas
  \<open>hb_window_average_accuracy_fp_exact\<close> and \<open>heartbeat_acc_fp_exact\<close>).
\<close>

text \<open>The summation loop of the warm-up phase, rounding after every addition.\<close>

primrec window_sum_fp :: "(real \<Rightarrow> real) \<Rightarrow> real list \<Rightarrow> nat \<Rightarrow> real" where
  "window_sum_fp rd xs 0 = 0"
| "window_sum_fp rd xs (Suc n) = rd (window_sum_fp rd xs n + xs ! n)"

text \<open>
  \<^verbatim>\<open>hb_window_average_accuracy\<close> with the rounding made explicit. The sum of the
  slots rounds after every addition; \<^verbatim>\<open>(double) hb->window[i]\<close>,
  \<^verbatim>\<open>(double) hb->current_index\<close> and \<^verbatim>\<open>(double) hb->state->window_size\<close>
  round the integer; the rate goes through \<^verbatim>\<open>(float) average_time\<close> and through
  the \<^verbatim>\<open>float\<close> return type.
\<close>

definition hb_window_average_accuracy_fp ::
  "(real \<Rightarrow> real) \<Rightarrow> (real \<Rightarrow> real) \<Rightarrow> heartbeat_t \<Rightarrow> int \<Rightarrow> real \<Rightarrow> real
     \<Rightarrow> hb_error + (heartbeat_t \<times> real \<times> real \<times> real)" where
  "hb_window_average_accuracy_fp rd rf hb time accuracy energy =
     (let ci = current_index hb; ws = window_size (state hb) in
      if \<not> (in_bounds ci (window hb) \<and> in_bounds ci (accuracy_window hb)
             \<and> in_bounds ci (power_window hb))
      then Inl Window_out_of_bounds
      else if \<not> steady_state hb then
        (let w = (window hb)[nat ci := time];
             aw = (accuracy_window hb)[nat ci := accuracy];
             pw = (power_window hb)[nat ci := energy];
             sum_time = window_sum_fp rd (map (\<lambda>x. rd (real_of_int x)) w) (nat (ci + 1));
             sum_accuracy = window_sum_fp rd aw (nat (ci + 1));
             sum_power = window_sum_fp rd pw (nat (ci + 1));
             window_time = sum_time;
             average_time = rd (sum_time / rd (rd (real_of_int ci) + 1));
             average_accuracy = rd (sum_accuracy / rd (rd (real_of_int ci) + 1));
             window_energy = sum_power;
             ci' = ci + 1;
             hb' = hb\<lparr> window := w, accuracy_window := aw, power_window := pw,
                       last_window_time := window_time,
                       last_window_energy := window_energy,
                       last_average_time := average_time,
                       last_average_accuracy := average_accuracy,
                       current_index := (if ci' = ws then 0 else ci'),
                       steady_state := (if ci' = ws then True else steady_state hb) \<rparr>
         in Inr (hb', rf (rd (rd (1 / rf average_time) * 1000000000)), average_accuracy,
                 rd (window_energy / rd (window_time / 1000000000))))
      else
        (let wsd = rd (real_of_int ws);
             average_time =
               rd (rd (last_average_time hb - rd (rd (real_of_int (window hb ! nat ci)) / wsd))
                   + rd (rd (real_of_int time) / wsd));
             average_accuracy =
               rd (rd (last_average_accuracy hb - rd (accuracy_window hb ! nat ci / wsd))
                   + rd (accuracy / wsd));
             window_time =
               rd (rd (last_window_time hb - rd (real_of_int (window hb ! nat ci)))
                   + rd (real_of_int time));
             window_energy = rd (rd (last_window_energy hb - power_window hb ! nat ci) + energy);
             ci' = ci + 1;
             hb' = hb\<lparr> last_average_time := average_time,
                       last_average_accuracy := average_accuracy,
                       last_window_time := window_time,
                       last_window_energy := window_energy,
                       window := (window hb)[nat ci := time],
                       accuracy_window := (accuracy_window hb)[nat ci := accuracy],
                       power_window := (power_window hb)[nat ci := energy],
                       current_index := (if ci' = ws then 0 else ci') \<rparr>
         in Inr (hb', rf (rd (rd (1 / rf average_time) * 1000000000)), average_accuracy,
                 rd (window_energy / rd (window_time / 1000000000)))))"

text \<open>\<^verbatim>\<open>heartbeat_acc\<close> with the rounding made explicit.\<close>

definition heartbeat_acc_fp ::
  "(real \<Rightarrow> real) \<Rightarrow> (real \<Rightarrow> real) \<Rightarrow> heartbeat_t \<Rightarrow> int \<Rightarrow> real \<Rightarrow> int \<Rightarrow> real
     \<Rightarrow> hb_error + (heartbeat_t \<times> int)" where
  "heartbeat_acc_fp rd rf hb0 time reading tag' accuracy =
     (let old_last_time = last_timestamp hb0;
          old_last_energy = last_energy hb0;
          energy = rd (rd reading / 1000000);
          hb = hb0\<lparr>last_timestamp := time, last_energy := energy\<rparr>
      in
      if first_timestamp hb = -1 then
        if \<not> (in_bounds 0 (window hb) \<and> in_bounds 0 (accuracy_window hb)
               \<and> in_bounds 0 (power_window hb))
        then Inl Window_out_of_bounds
        else if \<not> in_bounds 0 (hb_log hb) then Inl Log_out_of_bounds
        else
          Inr (hb
            \<lparr> first_timestamp := time,
              last_timestamp := time,
              last_energy := energy,
              window := (window hb)[0 := 0],
              accuracy_window := (accuracy_window hb)[0 := accuracy],
              power_window := (power_window hb)[0 := 0],
              hb_log := (hb_log hb)[0 :=
                 \<lparr> beat = counter (state hb), tag = tag', timestamp = time,
                   global_rate = 0, window_rate = 0, instant_rate = 0,
                   global_accuracy = accuracy, window_accuracy = accuracy,
                   instant_accuracy = accuracy,
                   global_power = 0, window_power = 0, instant_power = 0 \<rparr>],
              hb_global_accuracy := rd (hb_global_accuracy hb + accuracy),
              total_energy := 0,
              state := (state hb)
                \<lparr> counter := counter (state hb) + 1,
                  buffer_index := buffer_index (state hb) + 1,
                  valid := True \<rparr> \<rparr>, time)
      else
        (let index = buffer_index (state hb);
             delta_energy = rd (energy - old_last_energy) in
         case hb_window_average_accuracy_fp rd rf hb (time - old_last_time) accuracy
                delta_energy of
           Inl e \<Rightarrow> Inl e
         | Inr (hb1, window_heartrate, window_accuracy', window_power') \<Rightarrow>
            (let cnt = counter (state hb1);
                 global_heartrate =
                   rd (rd (rd (rd (real_of_int cnt) + 1)
                             / rd (real_of_int (time - first_timestamp hb1)))
                       * 1000000000);
                 instant_heartrate =
                   rd (rd (1 / rd (real_of_int (time - old_last_time))) * 1000000000);
                 acc_sum = rd (hb_global_accuracy hb1 + accuracy);
                 global_accuracy' = rd (acc_sum / rd (real_of_int (cnt + 1)));
                 instant_accuracy' = accuracy;
                 energy_sum = rd (total_energy hb1 + delta_energy);
                 global_power' =
                   rd (rd (energy_sum / rd (real_of_int (time - first_timestamp hb1)))
                       * 1000000000);
                 instant_power' =
                   rd (rd (delta_energy / rd (real_of_int (time - old_last_time)))
                       * 1000000000)
             in
             if \<not> in_bounds index (hb_log hb1) then Inl Log_out_of_bounds
             else if buffer_depth (state hb1) = 0 then Inl Division_by_zero
             else
               (let hb2 = hb1
                      \<lparr> hb_global_accuracy := acc_sum,
                        total_energy := energy_sum,
                        hb_log := (hb_log hb1)[nat index :=
                          \<lparr> beat = cnt, tag = tag', timestamp = time,
                            global_rate = global_heartrate,
                            window_rate = window_heartrate,
                            instant_rate = instant_heartrate,
                            global_accuracy = global_accuracy',
                            window_accuracy = window_accuracy',
                            instant_accuracy = instant_accuracy',
                            global_power = global_power',
                            window_power = window_power',
                            instant_power = instant_power' \<rparr>],
                        state := (state hb1)
                          \<lparr> buffer_index := buffer_index (state hb1) + 1,
                            counter := cnt + 1,
                            read_index := read_index (state hb1) + 1 \<rparr> \<rparr>
                in
                case (if buffer_index (state hb2) mod buffer_depth (state hb2) = 0
                      then (case (if text_file hb2 \<noteq> None then hb_flush_buffer hb2
                                  else Inr hb2) of
                              Inl e \<Rightarrow> Inl e
                            | Inr hb3 \<Rightarrow>
                                Inr (hb3\<lparr>state := (state hb3)\<lparr>buffer_index := 0\<rparr>\<rparr>))
                      else Inr hb2) of
                  Inl e \<Rightarrow> Inl e
                | Inr hb4 \<Rightarrow>
                    Inr (if read_index (state hb4) mod buffer_depth (state hb4) = 0
                         then hb4\<lparr>state := (state hb4)\<lparr>read_index := 0\<rparr>\<rparr>
                         else hb4, time)))))"

section \<open>The polling backend of the ODROID Smart Power meter\<close>

text \<open>
  \<^verbatim>\<open>hb-energy-odroid-smart-power.c\<close>, built with
  \<^verbatim>\<open>HB_ENERGY_ODROID_SMART_POWER_USE_POLLING\<close>. The static variables are the fields
  of the state; \<open>device\<close> tells whether the device handle is not \<^verbatim>\<open>NULL\<close>. The
  polling thread and the reader update the shared variables inside the same mutex, so
  a run is a sequence of whole updates.
\<close>

record osp_state =
  device :: bool
  osp_start_time :: int
  osp_total_energy :: real
  osp_hb_pwr_avg :: real
  osp_hb_pwr_avg_last :: real
  osp_hb_pwr_avg_count :: int

text \<open>
  Modelled from the spec: \<^verbatim>\<open>diff_sec\<close> is declared in a header that is not among the
  sources; the interval is \<open>curr_ts - last_ts\<close> in seconds, the timestamps being in
  nanoseconds.
\<close>

definition diff_sec :: "int \<Rightarrow> int \<Rightarrow> real" where
  "diff_sec last_ts curr_ts = real_of_int (curr_ts - last_ts) / 1000000000"

text \<open>The variables after a successful \<^verbatim>\<open>hb_energy_init_osp\<close> at time \<open>now\<close>.\<close>

definition hb_energy_init_osp :: "int \<Rightarrow> osp_state" where
  "hb_energy_init_osp now =
     \<lparr> device = True, osp_start_time = now, osp_total_energy = 0,
       osp_hb_pwr_avg = 0, osp_hb_pwr_avg_last = 0, osp_hb_pwr_avg_count = 0 \<rparr>"

text \<open>One pass of the loop of \<^verbatim>\<open>osp_poll_device\<close> that received the sample
  \<open>watts\<close>; a pass that received none leaves the variables as they are.\<close>

definition osp_poll_device :: "osp_state \<Rightarrow> real \<Rightarrow> osp_state" where
  "osp_poll_device s watts =
     s\<lparr> osp_hb_pwr_avg :=
          (watts + real_of_int (osp_hb_pwr_avg_count s) * osp_hb_pwr_avg s)
            / real_of_int (osp_hb_pwr_avg_count s + 1),
        osp_hb_pwr_avg_count := osp_hb_pwr_avg_count s + 1 \<rparr>"

text \<open>\<^verbatim>\<open>hb_energy_read_total_osp\<close>: the new variables and the returned value.\<close>

definition hb_energy_read_total_osp :: "osp_state \<Rightarrow> int \<Rightarrow> int \<Rightarrow> osp_state \<times> real" where
  "hb_energy_read_total_osp s last_hb_time curr_hb_time =
     (if \<not> device s then (s, -1)
      else
        (let last_hb_time' = (if last_hb_time < 0 then osp_start_time s else last_hb_time);
             avg_last = (if osp_hb_pwr_avg s > 0 then osp_hb_pwr_avg s
                         else osp_hb_pwr_avg_last s);
             total = osp_total_energy s + avg_last * diff_sec last_hb_time' curr_hb_time
         in (s\<lparr> osp_hb_pwr_avg_last := avg_last, osp_total_energy := total,
                osp_hb_pwr_avg := 0, osp_hb_pwr_avg_count := 0 \<rparr>, total)))"

text \<open>What happens to the shared variables, in the order the mutex grants.\<close>

datatype osp_event = Sample real | Read int int

fun osp_step :: "osp_state \<Rightarrow> osp_event \<Rightarrow> osp_state" where
  "osp_step s (Sample watts) = osp_poll_device s watts"
| "osp_step s (Read last_hb_time curr_hb_time) =
     fst (hb_energy_read_total_osp s last_hb_time curr_hb_time)"

fun osp_run :: "osp_state \<Rightarrow> osp_event list \<Rightarrow> osp_state" where
  "osp_run s [] = s"
| "osp_run s (e # es) = osp_run (osp_step s e) es"

text \<open>Power samples are not negative.\<close>

fun sample_ok :: "osp_event \<Rightarrow> bool" where
  "sample_ok (Sample watts) = (0 \<le> watts)"
| "sample_ok (Read _ _) = True"

section \<open>Sequences of heartbeats\<close>

text \<open>One call of \<^verbatim>\<open>heartbeat_acc\<close>: what the clock and the backend return, and the
  caller's tag and accuracy.\<close>

record hb_call =
  c_time :: int
  c_reading :: real
  c_tag :: int
  c_accuracy :: real

text \<open>The calls of a sequence, one after the other; the first error ends the run.\<close>

fun heartbeats :: "heartbeat_t \<Rightarrow> hb_call list \<Rightarrow> hb_error + heartbeat_t" where
  "heartbeats hb [] = Inr hb"
| "heartbeats hb (c # cs) =
     (case heartbeat_acc hb (c_time c) (c_reading c) (c_tag c) (c_accuracy c) of
        Inl e \<Rightarrow> Inl e
      | Inr (hb', _) \<Rightarrow> heartbeats hb' cs)"

fun heartbeats_fp ::
  "(real \<Rightarrow> real) \<Rightarrow> (real \<Rightarrow> real) \<Rightarrow> heartbeat_t \<Rightarrow> hb_call list \<Rightarrow> hb_error + heartbeat_t" where
  "heartbeats_fp rd rf hb [] = Inr hb"
| "heartbeats_fp rd rf hb (c # cs) =
     (case heartbeat_acc_fp rd rf hb (c_time c) (c_reading c) (c_tag c) (c_accuracy c) of
        Inl e \<Rightarrow> Inl e
      | Inr (hb', _) \<Rightarrow> heartbeats_fp rd rf hb' cs)"

section \<open>Reference metrics, recomputed from all calls\<close>

text \<open>
  The definitions of this section are not taken from the code: they recompute, from the
  whole list of calls, what the engine maintains incrementally.
\<close>

definition brute_average :: "real list \<Rightarrow> real" where
  "brute_average xs = sum_list xs / real (length xs)"





text \<open>The last \<open>k\<close> elements of a list (all of them when there are fewer).\<close>

definition trailing :: "nat \<Rightarrow> 'a list \<Rightarrow> 'a list" where
  "trailing k xs = drop (length xs - k) xs"

text \<open>Differences of consecutive elements: \<open>n\<close> beats have \<open>n - 1\<close> intervals.\<close>

fun deltas :: "'a::minus list \<Rightarrow> 'a list" where
  "deltas (x # y # zs) = (y - x) # deltas (y # zs)"
| "deltas _ = []"

definition joules :: "hb_call \<Rightarrow> real" where
  "joules c = c_reading c / 1000000"

text \<open>
  The record of the last call of \<open>cs\<close>. The window covers the trailing \<open>ws\<close>
  inter-beat samples, that is the samples of the calls after the first.
\<close>

definition reference_record :: "nat \<Rightarrow> hb_call list \<Rightarrow> heartbeat_record_t" where
  "reference_record ws cs =
     (let n = length cs; c = last cs; c1 = hd cs;
          dts = map real_of_int (trailing ws (deltas (map c_time cs)));
          des = trailing ws (deltas (map joules cs));
          accs = trailing ws (map c_accuracy (tl cs));
          dt = real_of_int (c_time c - c_time (last (butlast cs)));
          de = joules c - joules (last (butlast cs))
      in if n \<le> 1 then
           \<lparr> beat = 0, tag = c_tag c, timestamp = c_time c,
             global_rate = 0, window_rate = 0, instant_rate = 0,
             global_accuracy = c_accuracy c, window_accuracy = c_accuracy c,
             instant_accuracy = c_accuracy c,
             global_power = 0, window_power = 0, instant_power = 0 \<rparr>
         else
           \<lparr> beat = int n - 1, tag = c_tag c, timestamp = c_time c,
             global_rate = real n / real_of_int (c_time c - c_time c1) * 1000000000,
             window_rate = 1 / brute_average dts * 1000000000,
             instant_rate = 1 / dt * 1000000000,
             global_accuracy = sum_list (map c_accuracy cs) / real n,
             window_accuracy = brute_average accs,
             instant_accuracy = c_accuracy c,
             global_power = (joules c - joules c1)
                              / real_of_int (c_time c - c_time c1) * 1000000000,
             window_power = sum_list des / (sum_list dts / 1000000000),
             instant_power = de / dt * 1000000000 \<rparr>)"

text \<open>The records of all calls, in call order.\<close>

definition records :: "nat \<Rightarrow> hb_call list \<Rightarrow> heartbeat_record_t list" where
  "records ws cs = map (\<lambda>k. reference_record ws (take (Suc k) cs)) [0..<length cs]"

text \<open>The complete chunks of \<open>bd\<close> elements of a list, in order.\<close>

definition flushed :: "nat \<Rightarrow> 'a list \<Rightarrow> 'a list list" where
  "flushed bd xs = map (\<lambda>j. take bd (drop (j * bd) xs)) [0..<length xs div bd]"

section \<open>Invariants\<close>

text \<open>A ring of \<open>ws\<close> slots holds the trailing \<open>ws\<close> elements of \<open>xs\<close>, element
  \<open>i\<close> in slot \<open>i mod ws\<close>.\<close>

definition ring_ok :: "nat \<Rightarrow> 'a list \<Rightarrow> 'a list \<Rightarrow> bool" where
  "ring_ok ws w xs \<longleftrightarrow>
     length w = ws \<and> (\<forall>i<length xs. length xs \<le> i + ws \<longrightarrow> w ! (i mod ws) = xs ! i)"

definition same_outside_window :: "heartbeat_t \<Rightarrow> heartbeat_t \<Rightarrow> bool" where
  "same_outside_window hb hb' \<longleftrightarrow>
     state hb' = state hb \<and> hb_log hb' = hb_log hb \<and> text_file hb' = text_file hb
     \<and> first_timestamp hb' = first_timestamp hb \<and> last_timestamp hb' = last_timestamp hb
     \<and> last_energy hb' = last_energy hb \<and> hb_global_accuracy hb' = hb_global_accuracy hb
     \<and> hb_global_power hb' = hb_global_power hb \<and> total_energy hb' = total_energy hb"

definition same_window :: "heartbeat_t \<Rightarrow> heartbeat_t \<Rightarrow> bool" where
  "same_window hb hb' \<longleftrightarrow>
     window hb' = window hb \<and> accuracy_window hb' = accuracy_window hb
     \<and> power_window hb' = power_window hb \<and> current_index hb' = current_index hb
     \<and> steady_state hb' = steady_state hb \<and> last_average_time hb' = last_average_time hb
     \<and> last_average_accuracy hb' = last_average_accuracy hb
     \<and> last_window_time hb' = last_window_time hb
     \<and> last_window_energy hb' = last_window_energy hb"

text \<open>The window after the samples \<open>dts\<close>, \<open>accs\<close>, \<open>des\<close> have been passed to
  \<open>hb_window_average_accuracy\<close>, one call each.\<close>

definition win_inv :: "heartbeat_t \<Rightarrow> int list \<Rightarrow> real list \<Rightarrow> real list \<Rightarrow> bool" where
  "win_inv hb dts accs des \<longleftrightarrow>
     1 \<le> window_size (state hb) \<and> length accs = length dts \<and> length des = length dts
     \<and> ring_ok (nat (window_size (state hb))) (window hb) dts
     \<and> ring_ok (nat (window_size (state hb))) (accuracy_window hb) accs
     \<and> ring_ok (nat (window_size (state hb))) (power_window hb) des
     \<and> current_index hb = int (length dts mod nat (window_size (state hb)))
     \<and> steady_state hb = (nat (window_size (state hb)) \<le> length dts)
     \<and> (dts \<noteq> [] \<longrightarrow>
          last_average_time hb
            = brute_average (map real_of_int (trailing (nat (window_size (state hb))) dts))
        \<and> last_average_accuracy hb
            = brute_average (trailing (nat (window_size (state hb))) accs)
        \<and> last_window_time hb
            = sum_list (map real_of_int (trailing (nat (window_size (state hb))) dts))
        \<and> last_window_energy hb
            = sum_list (trailing (nat (window_size (state hb))) des))"

text \<open>The engine after the calls \<open>cs\<close>, at least one.\<close>

definition hb_inv :: "nat \<Rightarrow> nat \<Rightarrow> bool \<Rightarrow> heartbeat_t \<Rightarrow> hb_call list \<Rightarrow> bool" where
  "hb_inv ws bd wl hb cs \<longleftrightarrow>
     win_inv hb (deltas (map c_time cs)) (map c_accuracy (tl cs)) (deltas (map joules cs))
     \<and> window_size (state hb) = int ws \<and> buffer_depth (state hb) = int bd
     \<and> first_timestamp hb = c_time (hd cs) \<and> first_timestamp hb \<noteq> -1
     \<and> last_timestamp hb = c_time (last cs) \<and> last_energy hb = joules (last cs)
     \<and> counter (state hb) = int (length cs)
     \<and> buffer_index (state hb) = int (length cs mod bd)
     \<and> read_index (state hb) = int ((length cs - 1) mod bd)
     \<and> valid (state hb)
     \<and> hb_global_accuracy hb = sum_list (map c_accuracy cs)
     \<and> total_energy hb = joules (last cs) - joules (hd cs)
     \<and> ring_ok bd (hb_log hb) (records ws cs)
     \<and> text_file hb = (if wl then Some (flushed bd (records ws cs)) else None)"



text \<open>Between a read and the first sample after it the count and the running average
  are both 0.\<close>

definition osp_ok :: "osp_state \<Rightarrow> bool" where
  "osp_ok s \<longleftrightarrow>
     device s \<and> 0 \<le> osp_hb_pwr_avg_count s
     \<and> (osp_hb_pwr_avg_count s = 0 \<longrightarrow> osp_hb_pwr_avg s = 0)"

section \<open>A concrete memory for the examples\<close>

definition zero_record :: heartbeat_record_t where
  "zero_record = \<lparr> beat = 0, tag = 0, timestamp = 0, global_rate = 0, window_rate = 0,
     instant_rate = 0, global_accuracy = 0, window_accuracy = 0, instant_accuracy = 0,
     global_power = 0, window_power = 0, instant_power = 0 \<rparr>"

definition zero_mem :: "nat \<Rightarrow> nat \<Rightarrow> heartbeat_t" where
  "zero_mem ws bd =
     \<lparr> state = \<lparr> counter = 0, buffer_index = 0, read_index = 0, buffer_depth = 0,
                 window_size = 0, valid = False \<rparr>,
       hb_log = replicate bd zero_record,
       text_file = None,
       first_timestamp = 0, last_timestamp = 0, last_energy = 0,
       window = replicate ws 0, accuracy_window = replicate ws 0,
       power_window = replicate ws 0,
       current_index = 0, steady_state = False,
       last_average_time = 0, last_average_accuracy = 0,
       last_window_time = 0, last_window_energy = 0,
       hb_global_accuracy = 0, hb_global_power = 0, total_energy = 0 \<rparr>"

definition call :: "int \<Rightarrow> real \<Rightarrow> int \<Rightarrow> real \<Rightarrow> hb_call" where
  "call t r tg a = \<lparr> c_time = t, c_reading = r, c_tag = tg, c_accuracy = a \<rparr>"

section \<open>Ring buffers and trailing sums\<close>

lemma window_sum_take: "n \<le> length xs \<Longrightarrow> window_sum xs n = sum_list (take n xs)"
  by (induction n) (simp_all add: take_Suc_conv_app_nth)

lemma mod_neq_close:
  fixes i k ws :: nat
  assumes "i < k" "k < i + ws"
  shows "i mod ws \<noteq> k mod ws"
proof
  assume "i mod ws = k mod ws"
  then have "ws dvd k - i" using assms(1)
    by (metis less_imp_le_nat mod_eq_dvd_iff_nat)
  moreover have "0 < k - i" "k - i < ws" using assms by auto
  ultimately show False by (meson dvd_imp_le not_less)
qed

lemma ring_ok_push:
  assumes "ring_ok ws w xs" "0 < ws"
  shows "ring_ok ws (w[length xs mod ws := x]) (xs @ [x])"
  unfolding ring_ok_def
proof (intro conjI allI impI)
  show "length (w[length xs mod ws := x]) = ws" using assms by (simp add: ring_ok_def)
next
  fix i assume i: "i < length (xs @ [x])" "length (xs @ [x]) \<le> i + ws"
  have lw: "length w = ws" using assms by (simp add: ring_ok_def)
  show "w[length xs mod ws := x] ! (i mod ws) = (xs @ [x]) ! i"
  proof (cases "i = length xs")
    case True
    then show ?thesis using lw assms(2) by simp
  next
    case False
    with i have il: "i < length xs" and close: "length xs < i + ws" by auto
    then have "i mod ws \<noteq> length xs mod ws" by (rule mod_neq_close)
    moreover have "w ! (i mod ws) = xs ! i"
      using assms(1) il close by (simp add: ring_ok_def)
    ultimately show ?thesis using il by (simp add: nth_append)
  qed
qed

lemma ring_ok_warm:
  assumes "ring_ok ws w xs" "length xs < ws"
  shows "take (length xs) w = xs"
proof (rule nth_equalityI)
  show "length (take (length xs) w) = length xs" using assms by (simp add: ring_ok_def)
next
  fix i assume "i < length (take (length xs) w)"
  then have "i < length xs" by simp
  then show "take (length xs) w ! i = xs ! i"
    using assms by (simp add: ring_ok_def)
qed

lemma ring_ok_oldest:
  assumes "ring_ok ws w xs" "ws \<le> length xs" "0 < ws"
  shows "w ! (length xs mod ws) = xs ! (length xs - ws)"
proof -
  have "(length xs - ws) mod ws = length xs mod ws"
    using assms(2) by (simp add: le_mod_geq)
  moreover have "w ! ((length xs - ws) mod ws) = xs ! (length xs - ws)"
    using assms by (simp add: ring_ok_def)
  ultimately show ?thesis by simp
qed

lemma ring_ok_map: "ring_ok ws w xs \<Longrightarrow> ring_ok ws (map f w) (map f xs)"
  unfolding ring_ok_def
  by (auto simp: nth_map)

lemma trailing_short: "length xs \<le> k \<Longrightarrow> trailing k xs = xs"
  by (simp add: trailing_def)

lemma length_trailing: "length (trailing k xs) = min k (length xs)"
  by (auto simp: trailing_def)

lemma sum_trailing_push:
  fixes xs :: "real list"
  assumes "ws \<le> length xs" "0 < ws"
  shows "sum_list (trailing ws (xs @ [x])) = sum_list (trailing ws xs) - xs ! (length xs - ws) + x"
proof -
  have a: "trailing ws (xs @ [x]) = drop (Suc (length xs - ws)) xs @ [x]"
    using assms by (simp add: trailing_def Suc_diff_le)
  have "length xs - ws < length xs" using assms by simp
  then have b: "trailing ws xs = xs ! (length xs - ws) # drop (Suc (length xs - ws)) xs"
    unfolding trailing_def by (simp add: Cons_nth_drop_Suc)
  show ?thesis by (simp add: a b)
qed

lemma trailing_map: "trailing k (map f xs) = map f (trailing k xs)"
  by (simp add: trailing_def drop_map)


section \<open>One step of the sliding window\<close>

lemma warm_sum:
  fixes w :: "real list"
  assumes "ring_ok ws w xs" "length xs < ws"
  shows "window_sum (w[length xs := x]) (Suc (length xs)) = sum_list xs + x"
proof -
  have lw: "length w = ws" using assms by (simp add: ring_ok_def)
  have "take (Suc (length xs)) (w[length xs := x]) = take (length xs) w @ [x]"
    using assms(2) lw by (simp add: take_Suc_conv_app_nth)
  then have "take (Suc (length xs)) (w[length xs := x]) = xs @ [x]"
    using ring_ok_warm[OF assms] by simp
  moreover have "window_sum (w[length xs := x]) (Suc (length xs))
      = sum_list (take (Suc (length xs)) (w[length xs := x]))"
    using assms(2) lw by (intro window_sum_take) simp
  ultimately show ?thesis by simp
qed

lemma steady_sum:
  fixes w :: "real list"
  assumes "ring_ok ws w xs" "ws \<le> length xs" "0 < ws"
  shows "sum_list (trailing ws (xs @ [x]))
           = sum_list (trailing ws xs) - w ! (length xs mod ws) + x"
  using sum_trailing_push[OF assms(2,3)] ring_ok_oldest[OF assms] by simp

lemma window_step_warm:
  assumes inv: "win_inv hb dts accs des"
      and warm: "length dts < nat (window_size (state hb))"
  shows "\<exists>hb'. hb_window_average_accuracy hb dt a de =
            Inr (hb',
                 1 / brute_average (map real_of_int
                        (trailing (nat (window_size (state hb))) (dts @ [dt]))) * 1000000000,
                 brute_average (trailing (nat (window_size (state hb))) (accs @ [a])),
                 sum_list (trailing (nat (window_size (state hb))) (des @ [de]))
                   / (sum_list (map real_of_int
                        (trailing (nat (window_size (state hb))) (dts @ [dt]))) / 1000000000))
          \<and> win_inv hb' (dts @ [dt]) (accs @ [a]) (des @ [de])
          \<and> same_outside_window hb hb'"
proof -
  define ws where "ws = nat (window_size (state hb))"
  define k where "k = length dts"
  have ws1: "1 \<le> window_size (state hb)" and la: "length accs = k" and le: "length des = k"
    and rw: "ring_ok ws (window hb) dts" and ra: "ring_ok ws (accuracy_window hb) accs"
    and rp: "ring_ok ws (power_window hb) des"
    and ci: "current_index hb = int (k mod ws)" and st: "steady_state hb = (ws \<le> k)"
    using inv by (simp_all add: win_inv_def ws_def k_def)
  have kws: "k < ws" using warm by (simp add: ws_def k_def)
  have wsi: "int ws = window_size (state hb)" using ws1 by (simp add: ws_def)
  have ci': "current_index hb = int k" using ci kws by simp
  have nst: "\<not> steady_state hb" using st kws by simp
  have lens: "length (window hb) = ws" "length (accuracy_window hb) = ws"
    "length (power_window hb) = ws"
    using rw ra rp by (simp_all add: ring_ok_def)
  have bounds: "in_bounds (current_index hb) (window hb)"
    "in_bounds (current_index hb) (accuracy_window hb)"
    "in_bounds (current_index hb) (power_window hb)"
    using kws ci' lens by (simp_all add: in_bounds_def)
  have rwm: "ring_ok ws (map real_of_int (window hb)) (map real_of_int dts)"
    using rw by (rule ring_ok_map)
  have st_sum: "window_sum (map real_of_int ((window hb)[k := dt])) (Suc k)
                  = sum_list (map real_of_int dts) + real_of_int dt"
    using warm_sum[OF rwm, of "real_of_int dt"] kws by (simp add: k_def map_update)
  have sa_sum: "window_sum ((accuracy_window hb)[k := a]) (Suc k) = sum_list accs + a"
    using warm_sum[OF ra, of a] kws la by simp
  have sp_sum: "window_sum ((power_window hb)[k := de]) (Suc k) = sum_list des + de"
    using warm_sum[OF rp, of de] kws le by simp
  have tr: "trailing ws (dts @ [dt]) = dts @ [dt]" "trailing ws (accs @ [a]) = accs @ [a]"
    "trailing ws (des @ [de]) = des @ [de]"
    using kws la le by (simp_all add: trailing_short k_def)
  have kmod: "k mod ws = k" using kws by simp
  have rw': "ring_ok ws ((window hb)[k := dt]) (dts @ [dt])"
    using ring_ok_push[OF rw, of dt] kws kmod by (simp add: k_def)
  have ra': "ring_ok ws ((accuracy_window hb)[k := a]) (accs @ [a])"
    using ring_ok_push[OF ra, of a] kws kmod la by simp
  have rp': "ring_ok ws ((power_window hb)[k := de]) (des @ [de])"
    using ring_ok_push[OF rp, of de] kws kmod le by simp
  have nk: "nat (int k + 1) = Suc k" "nat (int k) = k" by simp_all
  have idx: "(if int k + 1 = int ws then 0 else int k + 1) = int (Suc k mod ws)"
    using kws by (auto simp: mod_Suc)
  have stq: "(int k + 1 = int ws) = (ws \<le> Suc k)" using kws by auto
  have div: "real_of_int (int k) + 1 = real (Suc k)" by simp
  show ?thesis
    unfolding hb_window_average_accuracy_def Let_def
    using bounds nst kws
    apply (simp only: if_True if_False simp_thms ci' nk st_sum sa_sum sp_sum ws_def[symmetric] div)
    apply (simp add: win_inv_def same_outside_window_def ws_def[symmetric] wsi[symmetric]
        tr rw' ra' rp' la le k_def[symmetric] brute_average_def idx stq del: of_nat_Suc)
    apply (auto simp: le_Suc_eq)
    done
qed


lemma window_step_steady:
  assumes inv: "win_inv hb dts accs des"
      and full: "nat (window_size (state hb)) \<le> length dts"
  shows "\<exists>hb'. hb_window_average_accuracy hb dt a de =
            Inr (hb',
                 1 / brute_average (map real_of_int
                        (trailing (nat (window_size (state hb))) (dts @ [dt]))) * 1000000000,
                 brute_average (trailing (nat (window_size (state hb))) (accs @ [a])),
                 sum_list (trailing (nat (window_size (state hb))) (des @ [de]))
                   / (sum_list (map real_of_int
                        (trailing (nat (window_size (state hb))) (dts @ [dt]))) / 1000000000))
          \<and> win_inv hb' (dts @ [dt]) (accs @ [a]) (des @ [de])
          \<and> same_outside_window hb hb'"
proof -
  define ws where "ws = nat (window_size (state hb))"
  define k where "k = length dts"
  have ws1: "1 \<le> window_size (state hb)" and la: "length accs = k" and le: "length des = k"
    and rw: "ring_ok ws (window hb) dts" and ra: "ring_ok ws (accuracy_window hb) accs"
    and rp: "ring_ok ws (power_window hb) des"
    and ci: "current_index hb = int (k mod ws)" and st: "steady_state hb = (ws \<le> k)"
    using inv by (simp_all add: win_inv_def ws_def k_def)
  have kws: "ws \<le> k" using full by (simp add: ws_def k_def)
  have ws0: "0 < ws" using ws1 by (simp add: ws_def)
  have wsi: "window_size (state hb) = int ws" using ws1 by (simp add: ws_def)
  have ne: "dts \<noteq> []" using kws ws0 by (auto simp: k_def)
  have old: "last_average_time hb = brute_average (map real_of_int (trailing ws dts))"
    "last_average_accuracy hb = brute_average (trailing ws accs)"
    "last_window_time hb = sum_list (map real_of_int (trailing ws dts))"
    "last_window_energy hb = sum_list (trailing ws des)"
    using inv ne by (simp_all add: win_inv_def ws_def)
  have sst: "steady_state hb" using st kws by simp
  have lens: "length (window hb) = ws" "length (accuracy_window hb) = ws"
    "length (power_window hb) = ws"
    using rw ra rp by (simp_all add: ring_ok_def)
  have cilt: "k mod ws < ws" using ws0 by simp
  have bounds: "in_bounds (current_index hb) (window hb)"
    "in_bounds (current_index hb) (accuracy_window hb)"
    "in_bounds (current_index hb) (power_window hb)"
    using cilt ci lens by (simp_all add: in_bounds_def)
  have rwm: "ring_ok ws (map real_of_int (window hb)) (map real_of_int dts)"
    using rw by (rule ring_ok_map)
  have lt: "length (trailing ws dts) = ws" "length (trailing ws accs) = ws"
    "length (trailing ws (dts @ [dt])) = ws" "length (trailing ws (accs @ [a])) = ws"
    using kws la by (simp_all add: length_trailing k_def)
  have s_t: "sum_list (map real_of_int (trailing ws (dts @ [dt])))
      = sum_list (map real_of_int (trailing ws dts)) - real_of_int (window hb ! (k mod ws))
        + real_of_int dt"
    using steady_sum[OF rwm _ ws0, of "real_of_int dt"] kws cilt lens
    by (simp add: k_def trailing_map[symmetric])
  have s_a: "sum_list (trailing ws (accs @ [a]))
      = sum_list (trailing ws accs) - accuracy_window hb ! (k mod ws) + a"
    using steady_sum[OF ra _ ws0, of a] kws la by simp
  have s_p: "sum_list (trailing ws (des @ [de]))
      = sum_list (trailing ws des) - power_window hb ! (k mod ws) + de"
    using steady_sum[OF rp _ ws0, of de] kws le by simp
  have rw': "ring_ok ws ((window hb)[k mod ws := dt]) (dts @ [dt])"
    using ring_ok_push[OF rw ws0, of dt] by (simp add: k_def)
  have ra': "ring_ok ws ((accuracy_window hb)[k mod ws := a]) (accs @ [a])"
    using ring_ok_push[OF ra ws0, of a] la by simp
  have rp': "ring_ok ws ((power_window hb)[k mod ws := de]) (des @ [de])"
    using ring_ok_push[OF rp ws0, of de] le by simp
  have idx: "(if int (k mod ws) + 1 = int ws then 0 else int (k mod ws) + 1)
               = int (Suc k mod ws)"
    by (auto simp: mod_Suc)
  have avg_t: "brute_average (map real_of_int (trailing ws (dts @ [dt])))
      = brute_average (map real_of_int (trailing ws dts))
        - real_of_int (window hb ! (k mod ws)) / real ws + real_of_int dt / real ws"
    using lt by (simp add: brute_average_def s_t diff_divide_distrib add_divide_distrib)
  have avg_a: "brute_average (trailing ws (accs @ [a]))
      = brute_average (trailing ws accs)
        - accuracy_window hb ! (k mod ws) / real ws + a / real ws"
    using lt by (simp add: brute_average_def s_a diff_divide_distrib add_divide_distrib)
  show ?thesis
    unfolding hb_window_average_accuracy_def Let_def
    using bounds sst kws ws0
    apply (simp only: if_True if_False simp_thms ci old wsi nat_int of_int_of_nat_eq)
    apply (simp add: win_inv_def same_outside_window_def wsi
        rw' ra' rp' la le k_def[symmetric] idx avg_t avg_a s_t s_p del: of_nat_Suc)
    done
qed

lemma window_step:
  assumes "win_inv hb dts accs des"
  shows "\<exists>hb'. hb_window_average_accuracy hb dt a de =
            Inr (hb',
                 1 / brute_average (map real_of_int
                        (trailing (nat (window_size (state hb))) (dts @ [dt]))) * 1000000000,
                 brute_average (trailing (nat (window_size (state hb))) (accs @ [a])),
                 sum_list (trailing (nat (window_size (state hb))) (des @ [de]))
                   / (sum_list (map real_of_int
                        (trailing (nat (window_size (state hb))) (dts @ [dt]))) / 1000000000))
          \<and> win_inv hb' (dts @ [dt]) (accs @ [a]) (des @ [de])
          \<and> same_outside_window hb hb'"
proof (cases "length dts < nat (window_size (state hb))")
  case True
  with assms show ?thesis by (rule window_step_warm)
next
  case False
  then have "nat (window_size (state hb)) \<le> length dts" by simp
  with assms show ?thesis by (rule window_step_steady)
qed


section \<open>One heartbeat after the first\<close>

lemma heartbeat_acc_next:
  assumes nf: "first_timestamp hb \<noteq> -1"
      and win: "hb_window_average_accuracy (hb\<lparr>last_timestamp := t, last_energy := r / 1000000\<rparr>)
                  (t - last_timestamp hb) a (r / 1000000 - last_energy hb)
                = Inr (hb1, fps, ar, pr)"
      and fr: "same_outside_window (hb\<lparr>last_timestamp := t, last_energy := r / 1000000\<rparr>) hb1"
      and bi: "0 \<le> buffer_index (state hb)" "buffer_index (state hb) < buffer_depth (state hb)"
      and bd: "buffer_depth (state hb) = int (length (hb_log hb))"
  shows "\<exists>hb'. heartbeat_acc hb t r tg a = Inr (hb', t)
      \<and> same_window hb1 hb'
      \<and> state hb' = (state hb)
           \<lparr> counter := counter (state hb) + 1,
             buffer_index := (if buffer_index (state hb) + 1 = buffer_depth (state hb)
                              then 0 else buffer_index (state hb) + 1),
             read_index := (if (read_index (state hb) + 1) mod buffer_depth (state hb) = 0
                            then 0 else read_index (state hb) + 1) \<rparr>
      \<and> hb_log hb' = (hb_log hb)[nat (buffer_index (state hb)) :=
           \<lparr> beat = counter (state hb), tag = tg, timestamp = t,
             global_rate = (real_of_int (counter (state hb)) + 1)
                            / real_of_int (t - first_timestamp hb) * 1000000000,
             window_rate = fps,
             instant_rate = 1 / real_of_int (t - last_timestamp hb) * 1000000000,
             global_accuracy = (hb_global_accuracy hb + a)
                                / real_of_int (counter (state hb) + 1),
             window_accuracy = ar,
             instant_accuracy = a,
             global_power = (total_energy hb + (r / 1000000 - last_energy hb))
                             / real_of_int (t - first_timestamp hb) * 1000000000,
             window_power = pr,
             instant_power = (r / 1000000 - last_energy hb)
                              / real_of_int (t - last_timestamp hb) * 1000000000 \<rparr>]
      \<and> text_file hb' =
          (if buffer_index (state hb) + 1 = buffer_depth (state hb)
           then map_option (\<lambda>chunks. chunks @ [hb_log hb']) (text_file hb)
           else text_file hb)
      \<and> first_timestamp hb' = first_timestamp hb \<and> last_timestamp hb' = t
      \<and> last_energy hb' = r / 1000000
      \<and> hb_global_accuracy hb' = hb_global_accuracy hb + a
      \<and> total_energy hb' = total_energy hb + (r / 1000000 - last_energy hb)"
proof -
  have st: "state hb1 = state hb" and lg: "hb_log hb1 = hb_log hb"
    and tf: "text_file hb1 = text_file hb" and ft: "first_timestamp hb1 = first_timestamp hb"
    and lt: "last_timestamp hb1 = t" and le: "last_energy hb1 = r / 1000000"
    and ga: "hb_global_accuracy hb1 = hb_global_accuracy hb"
    and te: "total_energy hb1 = total_energy hb"
    using fr by (simp_all add: same_outside_window_def)
  have ib: "in_bounds (buffer_index (state hb)) (hb_log hb)"
    using bi bd by (simp add: in_bounds_def)
  have bd0: "buffer_depth (state hb) \<noteq> 0" using bi by auto
  have md: "((buffer_index (state hb) + 1) mod buffer_depth (state hb) = 0)
             = (buffer_index (state hb) + 1 = buffer_depth (state hb))"
  proof (cases "buffer_index (state hb) + 1 = buffer_depth (state hb)")
    case True
    then show ?thesis by simp
  next
    case False
    then have "buffer_index (state hb) + 1 < buffer_depth (state hb)" using bi by simp
    then have "(buffer_index (state hb) + 1) mod buffer_depth (state hb)
                 = buffer_index (state hb) + 1"
      using bi by simp
    then show ?thesis using bi False by simp
  qed
  show ?thesis
  proof (cases "text_file hb")
    case None
    then show ?thesis
      unfolding heartbeat_acc_def
      using nf ib bd0 bi bd
      by (simp add: Let_def win st lg tf ft lt le ga te md same_window_def hb_flush_buffer_def)
  next
    case (Some chunks)
    then show ?thesis
      unfolding heartbeat_acc_def
      using nf ib bd0 bi bd
      by (simp add: Let_def win st lg tf ft lt le ga te md same_window_def hb_flush_buffer_def)
  qed
qed

section \<open>Samples, records and flushed chunks\<close>

lemma deltas_snoc: "xs \<noteq> [] \<Longrightarrow> deltas (xs @ [x]) = deltas xs @ [x - last xs]"
  by (induction xs rule: deltas.induct) auto

lemma length_deltas: "length (deltas xs) = length xs - 1"
  by (induction xs rule: deltas.induct) auto

lemma deltas_map_snoc:
  "cs \<noteq> [] \<Longrightarrow> deltas (map f cs @ [y]) = deltas (map f cs) @ [y - f (last cs)]"
  using deltas_snoc[of "map f cs" y] by (simp add: last_map)

lemma records_snoc: "records ws (cs @ [c]) = records ws cs @ [reference_record ws (cs @ [c])]"
  by (simp add: records_def)

lemma length_records: "length (records ws cs) = length cs"
  by (simp add: records_def)

lemma chunk_le:
  fixes j bd n :: nat
  assumes "j < n div bd"
  shows "Suc j * bd \<le> n"
proof -
  have "Suc j * bd \<le> (n div bd) * bd" using assms by (simp add: Suc_leI mult_le_mono1 del: mult_Suc)
  also have "\<dots> \<le> n" by simp
  finally show ?thesis .
qed

lemma nth_chunk: "i < bd \<Longrightarrow> k + i < length ys \<Longrightarrow> take bd (drop k ys) ! i = ys ! (k + i)"
  by simp

lemma flushed_chunk_prefix:
  assumes "Suc j * bd \<le> length xs"
  shows "take bd (drop (j * bd) (xs @ ys)) = take bd (drop (j * bd) xs)"
  using assms by simp

lemma flushed_push_partial:
  assumes "Suc (length xs) mod bd \<noteq> 0"
  shows "flushed bd (xs @ [x]) = flushed bd xs"
proof -
  have d: "Suc (length xs) div bd = length xs div bd"
    using assms by (simp add: div_Suc)
  have "take bd (drop (j * bd) (xs @ [x])) = take bd (drop (j * bd) xs)"
    if "j < length xs div bd" for j
    using chunk_le[OF that] by simp
  then show ?thesis
    unfolding flushed_def by (simp add: d)
qed

lemma flushed_push_full:
  assumes full: "Suc (length xs) mod bd = 0" and bd: "0 < bd"
      and ring: "ring_ok bd lg (xs @ [x])"
  shows "flushed bd (xs @ [x]) = flushed bd xs @ [lg]"
proof -
  define m where "m = length xs div bd"
  have d: "Suc (length xs) div bd = Suc m"
    using full bd by (auto simp: div_Suc m_def)
  have mb: "Suc m * bd = Suc (length xs)"
    using full d by (metis mod_0_imp_dvd dvd_div_mult_self)
  have pre: "\<And>j. j < m \<Longrightarrow> Suc j * bd \<le> length xs"
    unfolding m_def by (rule chunk_le)
  have lastc: "take bd (drop (m * bd) (xs @ [x])) = lg"
  proof (rule nth_equalityI)
    show "length (take bd (drop (m * bd) (xs @ [x]))) = length lg"
      using ring mb by (simp add: ring_ok_def)
  next
    fix i assume "i < length (take bd (drop (m * bd) (xs @ [x])))"
    then have i: "i < bd" by simp
    have lt: "m * bd + i < length (xs @ [x])" using mb i by simp
    have "length (xs @ [x]) \<le> m * bd + i + bd" using mb by simp
    with lt have "lg ! ((m * bd + i) mod bd) = (xs @ [x]) ! (m * bd + i)"
      using ring unfolding ring_ok_def by blast
    then have "lg ! i = (xs @ [x]) ! (m * bd + i)" using i by simp
    then show "take bd (drop (m * bd) (xs @ [x])) ! i = lg ! i"
      using nth_chunk[OF i lt] by simp
  qed
  have "take bd (drop (j * bd) (xs @ [x])) = take bd (drop (j * bd) xs)" if "j < m" for j
    using pre[OF that] by simp
  then show ?thesis
    unfolding flushed_def using lastc
    by (simp add: d m_def[symmetric])
qed

lemma concat_flushed: "concat (flushed bd xs) = take (length xs div bd * bd) xs"
proof -
  have "concat (map (\<lambda>j. take bd (drop (j * bd) xs)) [0..<m]) = take (m * bd) xs" for m
  proof (induction m)
    case 0
    show ?case by simp
  next
    case (Suc m)
    have "take (Suc m * bd) xs = take (m * bd + bd) xs" by (simp add: add.commute)
    also have "\<dots> = take (m * bd) xs @ take bd (drop (m * bd) xs)" by (rule take_add)
    finally show ?case using Suc by simp
  qed
  then show ?thesis by (simp add: flushed_def)
qed

lemma length_flushed: "length (flushed bd xs) = length xs div bd"
  by (simp add: flushed_def)

lemma flushed_chunk_length: "0 < bd \<Longrightarrow> ch \<in> set (flushed bd xs) \<Longrightarrow> length ch = bd"
proof -
  assume bd: "0 < bd" and "ch \<in> set (flushed bd xs)"
  then obtain j where j: "j < length xs div bd" and ch: "ch = take bd (drop (j * bd) xs)"
    by (auto simp: flushed_def)
  have "Suc j * bd \<le> length xs"
    using j by (rule chunk_le)
  then show ?thesis using ch by simp
qed

section \<open>The engine after any number of heartbeats\<close>

lemma win_inv_cong:
  assumes "win_inv hb dts accs des" "same_window hb hb'"
    "window_size (state hb') = window_size (state hb)"
  shows "win_inv hb' dts accs des"
  using assms by (simp add: win_inv_def same_window_def)


lemma first_beat_inv:
  assumes init: "heartbeat_acc_pow_init (int ws) (int bd) wl mem = Some hb"
      and ws: "1 \<le> ws" and bd: "2 \<le> bd" and t: "c_time c \<noteq> -1"
  shows "\<exists>hb'. heartbeat_acc hb (c_time c) (c_reading c) (c_tag c) (c_accuracy c)
                 = Inr (hb', c_time c)
             \<and> hb_inv ws bd wl hb' [c]"
proof -
  have lens: "length (hb_log mem) = bd" "length (window mem) = ws"
    "length (accuracy_window mem) = ws" "length (power_window mem) = ws"
    using init by (simp_all add: heartbeat_acc_pow_init_def split: if_splits)
  have hb: "hb = mem
        \<lparr> state := (state mem)
            \<lparr> counter := 0, buffer_index := 0, read_index := 0,
              buffer_depth := int bd, window_size := int ws, valid := False \<rparr>,
          text_file := (if wl then Some [] else None),
          first_timestamp := -1, last_timestamp := -1, current_index := 0,
          steady_state := False, hb_global_accuracy := 0, hb_global_power := 0,
          total_energy := 0 \<rparr>"
    using init by (simp add: heartbeat_acc_pow_init_def split: if_splits)
  have recs: "records ws [c] = [reference_record ws [c]]"
    by (simp add: records_def)
  have fl: "flushed bd [x] = []" for x :: heartbeat_record_t
    using bd by (simp add: flushed_def)
  have rr: "reference_record ws [c] =
       \<lparr> beat = 0, tag = c_tag c, timestamp = c_time c,
         global_rate = 0, window_rate = 0, instant_rate = 0,
         global_accuracy = c_accuracy c, window_accuracy = c_accuracy c,
         instant_accuracy = c_accuracy c,
         global_power = 0, window_power = 0, instant_power = 0 \<rparr>"
    by (simp add: reference_record_def)
  show ?thesis
    unfolding heartbeat_acc_def hb
    using lens ws bd t
    by (simp add: Let_def in_bounds_def hb_inv_def win_inv_def ring_ok_def recs fl rr joules_def)
qed


lemma next_beat_inv:
  assumes inv: "hb_inv ws bd wl hb cs" and ne: "cs \<noteq> []" and bd: "1 \<le> bd"
  shows "\<exists>hb'. heartbeat_acc hb (c_time c) (c_reading c) (c_tag c) (c_accuracy c)
                 = Inr (hb', c_time c)
             \<and> hb_inv ws bd wl hb' (cs @ [c])"
proof -
  define t where "t = c_time c"
  define r where "r = c_reading c"
  define a where "a = c_accuracy c"
  define n where "n = length cs"
  define hbu where "hbu = hb\<lparr>last_timestamp := t, last_energy := r / 1000000\<rparr>"
  define dts where "dts = deltas (map c_time cs)"
  define accs where "accs = map c_accuracy (tl cs)"
  define des where "des = deltas (map joules cs)"
  have n1: "1 \<le> n" using ne by (cases cs) (simp_all add: n_def)
  have w: "win_inv hb dts accs des"
    and wsz: "window_size (state hb) = int ws" and bdp: "buffer_depth (state hb) = int bd"
    and ft: "first_timestamp hb = c_time (hd cs)" and nf: "first_timestamp hb \<noteq> -1"
    and lt: "last_timestamp hb = c_time (last cs)" and le: "last_energy hb = joules (last cs)"
    and cnt: "counter (state hb) = int n"
    and bi: "buffer_index (state hb) = int (n mod bd)"
    and ri: "read_index (state hb) = int ((n - 1) mod bd)"
    and vl: "valid (state hb)"
    and ga: "hb_global_accuracy hb = sum_list (map c_accuracy cs)"
    and te: "total_energy hb = joules (last cs) - joules (hd cs)"
    and lg: "ring_ok bd (hb_log hb) (records ws cs)"
    and tf: "text_file hb = (if wl then Some (flushed bd (records ws cs)) else None)"
    using inv by (simp_all add: hb_inv_def dts_def accs_def des_def n_def)
  have wu: "win_inv hbu dts accs des"
    using w by (rule win_inv_cong) (simp_all add: hbu_def same_window_def)
  have wsn: "nat (window_size (state hbu)) = ws" using wsz by (simp add: hbu_def)
  have dts': "deltas (map c_time (cs @ [c])) = dts @ [t - last_timestamp hb]"
    using ne by (simp add: deltas_map_snoc dts_def t_def lt)
  have des': "deltas (map joules (cs @ [c])) = des @ [r / 1000000 - last_energy hb]"
    using ne by (simp add: deltas_map_snoc des_def r_def le joules_def)
  have accs': "map c_accuracy (tl (cs @ [c])) = accs @ [a]"
    using ne by (simp add: accs_def a_def)
  obtain hb1 where
    h1: "hb_window_average_accuracy hbu (t - last_timestamp hb) a
            (r / 1000000 - last_energy hb) =
          Inr (hb1,
               1 / brute_average (map real_of_int
                     (trailing ws (deltas (map c_time (cs @ [c]))))) * 1000000000,
               brute_average (trailing ws (map c_accuracy (tl (cs @ [c])))),
               sum_list (trailing ws (deltas (map joules (cs @ [c]))))
                 / (sum_list (map real_of_int
                     (trailing ws (deltas (map c_time (cs @ [c]))))) / 1000000000))"
    and w1: "win_inv hb1 (deltas (map c_time (cs @ [c]))) (map c_accuracy (tl (cs @ [c])))
               (deltas (map joules (cs @ [c])))"
    and f1: "same_outside_window hbu hb1"
    using window_step[OF wu, of "t - last_timestamp hb" a "r / 1000000 - last_energy hb"]
    unfolding wsn dts' des' accs' by blast
  have lenlog: "length (hb_log hb) = bd" using lg by (simp add: ring_ok_def)
  have bd0: "0 < bd" using bd by simp
  have bi0: "0 \<le> buffer_index (state hb)" "buffer_index (state hb) < buffer_depth (state hb)"
    using bi bdp bd0 by simp_all
  have bdl: "buffer_depth (state hb) = int (length (hb_log hb))" using bdp lenlog by simp
  obtain hb' where
    res: "heartbeat_acc hb t r (c_tag c) a = Inr (hb', t)"
    and sw: "same_window hb1 hb'"
    and st': "state hb' = (state hb)
           \<lparr> counter := counter (state hb) + 1,
             buffer_index := (if buffer_index (state hb) + 1 = buffer_depth (state hb)
                              then 0 else buffer_index (state hb) + 1),
             read_index := (if (read_index (state hb) + 1) mod buffer_depth (state hb) = 0
                            then 0 else read_index (state hb) + 1) \<rparr>"
    and lg': "hb_log hb' = (hb_log hb)[nat (buffer_index (state hb)) :=
           \<lparr> beat = counter (state hb), tag = c_tag c, timestamp = t,
             global_rate = (real_of_int (counter (state hb)) + 1)
                            / real_of_int (t - first_timestamp hb) * 1000000000,
             window_rate = 1 / brute_average (map real_of_int
                     (trailing ws (deltas (map c_time (cs @ [c]))))) * 1000000000,
             instant_rate = 1 / real_of_int (t - last_timestamp hb) * 1000000000,
             global_accuracy = (hb_global_accuracy hb + a)
                                / real_of_int (counter (state hb) + 1),
             window_accuracy = brute_average (trailing ws (map c_accuracy (tl (cs @ [c])))),
             instant_accuracy = a,
             global_power = (total_energy hb + (r / 1000000 - last_energy hb))
                             / real_of_int (t - first_timestamp hb) * 1000000000,
             window_power = sum_list (trailing ws (deltas (map joules (cs @ [c]))))
                 / (sum_list (map real_of_int
                     (trailing ws (deltas (map c_time (cs @ [c]))))) / 1000000000),
             instant_power = (r / 1000000 - last_energy hb)
                              / real_of_int (t - last_timestamp hb) * 1000000000 \<rparr>]"
    and tf': "text_file hb' =
          (if buffer_index (state hb) + 1 = buffer_depth (state hb)
           then map_option (\<lambda>chunks. chunks @ [hb_log hb']) (text_file hb)
           else text_file hb)"
    and ft': "first_timestamp hb' = first_timestamp hb" and lt': "last_timestamp hb' = t"
    and le': "last_energy hb' = r / 1000000"
    and ga': "hb_global_accuracy hb' = hb_global_accuracy hb + a"
    and te': "total_energy hb' = total_energy hb + (r / 1000000 - last_energy hb)"
    using heartbeat_acc_next[OF nf h1[unfolded hbu_def] f1[unfolded hbu_def] bi0 bdl,
        of "c_tag c"]
    by blast
  have st1: "state hb1 = state hb" using f1 by (simp add: same_outside_window_def hbu_def)
  have wsz': "window_size (state hb') = window_size (state hb1)"
    by (simp add: st' st1)
  have W: "win_inv hb' (deltas (map c_time (cs @ [c]))) (map c_accuracy (tl (cs @ [c])))
               (deltas (map joules (cs @ [c])))"
    using w1 sw wsz' by (rule win_inv_cong)
  have rec: "reference_record ws (cs @ [c]) =
           \<lparr> beat = counter (state hb), tag = c_tag c, timestamp = t,
             global_rate = (real_of_int (counter (state hb)) + 1)
                            / real_of_int (t - first_timestamp hb) * 1000000000,
             window_rate = 1 / brute_average (map real_of_int
                     (trailing ws (deltas (map c_time (cs @ [c]))))) * 1000000000,
             instant_rate = 1 / real_of_int (t - last_timestamp hb) * 1000000000,
             global_accuracy = (hb_global_accuracy hb + a)
                                / real_of_int (counter (state hb) + 1),
             window_accuracy = brute_average (trailing ws (map c_accuracy (tl (cs @ [c])))),
             instant_accuracy = a,
             global_power = (total_energy hb + (r / 1000000 - last_energy hb))
                             / real_of_int (t - first_timestamp hb) * 1000000000,
             window_power = sum_list (trailing ws (deltas (map joules (cs @ [c]))))
                 / (sum_list (map real_of_int
                     (trailing ws (deltas (map c_time (cs @ [c]))))) / 1000000000),
             instant_power = (r / 1000000 - last_energy hb)
                              / real_of_int (t - last_timestamp hb) * 1000000000 \<rparr>"
    using ne n1
    by (simp add: reference_record_def Let_def cnt ft lt le ga te n_def[symmetric]
          t_def r_def a_def joules_def add.commute)
  have LG: "ring_ok bd (hb_log hb') (records ws (cs @ [c]))"
    unfolding lg' rec[symmetric] records_snoc
    using ring_ok_push[OF lg bd0, of "reference_record ws (cs @ [c])"]
    by (simp add: bi length_records n_def)
  have full_iff: "(buffer_index (state hb) + 1 = buffer_depth (state hb))
                    = (Suc n mod bd = 0)"
    using bd0 by (auto simp: bi bdp mod_Suc)
  have BI: "buffer_index (state hb') = int (Suc n mod bd)"
    using bd0 by (auto simp: st' bi bdp mod_Suc)
  have nn: "Suc (n - 1) = n" using n1 by simp
  have RI: "read_index (state hb') = int (n mod bd)"
  proof -
    have "(int ((n - 1) mod bd) + 1) mod int bd = int (Suc ((n - 1) mod bd) mod bd)"
      by (metis of_nat_Suc zmod_int add.commute)
    then have z: "((read_index (state hb) + 1) mod buffer_depth (state hb) = 0)
                    = (Suc ((n - 1) mod bd) mod bd = 0)"
      by (simp add: ri bdp)
    have m: "n mod bd = (if Suc ((n - 1) mod bd) = bd then 0 else Suc ((n - 1) mod bd))"
      using mod_Suc[of "n - 1" bd] nn by simp
    show ?thesis
    proof (cases "Suc ((n - 1) mod bd) = bd")
      case True
      then show ?thesis using m z by (simp add: st')
    next
      case False
      have "(n - 1) mod bd < bd" using bd0 by simp
      with False have "Suc ((n - 1) mod bd) < bd" by simp
      then have "Suc ((n - 1) mod bd) mod bd \<noteq> 0" by simp
      then show ?thesis using m z False by (simp add: st' ri)
    qed
  qed
  have TF: "text_file hb' = (if wl then Some (flushed bd (records ws (cs @ [c]))) else None)"
  proof (cases "Suc n mod bd = 0")
    case True
    have "flushed bd (records ws cs @ [reference_record ws (cs @ [c])])
            = flushed bd (records ws cs) @ [hb_log hb']"
      using True bd0 LG by (intro flushed_push_full) (simp_all add: length_records n_def records_snoc)
    then show ?thesis using True by (simp add: tf' full_iff tf records_snoc)
  next
    case False
    have "flushed bd (records ws cs @ [reference_record ws (cs @ [c])])
            = flushed bd (records ws cs)"
      using False by (intro flushed_push_partial) (simp add: length_records n_def)
    then show ?thesis using False by (simp add: tf' full_iff tf records_snoc)
  qed
  have nf': "c_time (hd cs) \<noteq> -1" using nf ft by simp
  have "hb_inv ws bd wl hb' (cs @ [c])"
    unfolding hb_inv_def
    using W LG TF BI RI ne nf'
    by (simp add: st' wsz bdp ft' ft nf lt' le' ga' ga te' te cnt vl t_def r_def a_def
          joules_def n_def le)
  with res show ?thesis by (auto simp: t_def r_def a_def)
qed


lemma heartbeats_snoc:
  "heartbeats hb (cs @ [c]) =
     (case heartbeats hb cs of
        Inl e \<Rightarrow> Inl e
      | Inr hb' \<Rightarrow>
          (case heartbeat_acc hb' (c_time c) (c_reading c) (c_tag c) (c_accuracy c) of
             Inl e \<Rightarrow> Inl e
           | Inr (hb'', _) \<Rightarrow> Inr hb''))"
  by (induction cs arbitrary: hb) (auto split: sum.splits)

lemma heartbeats_inv:
  assumes init: "heartbeat_acc_pow_init (int ws) (int bd) wl mem = Some hb"
      and ws: "1 \<le> ws" and bd: "2 \<le> bd" and t: "c_time c \<noteq> -1"
  shows "\<exists>hb'. heartbeats hb (c # rest) = Inr hb' \<and> hb_inv ws bd wl hb' (c # rest)"
proof (induction rest rule: rev_induct)
  case Nil
  obtain hb' where "heartbeat_acc hb (c_time c) (c_reading c) (c_tag c) (c_accuracy c)
                 = Inr (hb', c_time c)" "hb_inv ws bd wl hb' [c]"
    using first_beat_inv[OF init ws bd t] by blast
  then show ?case by simp
next
  case (snoc d rest)
  then obtain hb1 where r1: "heartbeats hb (c # rest) = Inr hb1"
    and i1: "hb_inv ws bd wl hb1 (c # rest)" by blast
  have bd1: "1 \<le> bd" using bd by simp
  obtain hb2 where "heartbeat_acc hb1 (c_time d) (c_reading d) (c_tag d) (c_accuracy d)
                 = Inr (hb2, c_time d)" "hb_inv ws bd wl hb2 ((c # rest) @ [d])"
    using next_beat_inv[OF i1 _ bd1, of d] by blast
  then show ?case
    using r1 heartbeats_snoc[of hb "c # rest" d] by simp
qed

section \<open>Facts about a fresh engine\<close>

lemma init_fields:
  assumes "heartbeat_acc_pow_init (int ws) (int bd) wl mem = Some hb"
  shows "first_timestamp hb = -1" "counter (state hb) = 0" "buffer_index (state hb) = 0"
    "read_index (state hb) = 0" "current_index hb = 0" "\<not> steady_state hb"
    "hb_global_accuracy hb = 0" "total_energy hb = 0"
    "length (hb_log hb) = bd" "length (window hb) = ws" "length (accuracy_window hb) = ws"
    "length (power_window hb) = ws" "buffer_depth (state hb) = int bd"
    "window_size (state hb) = int ws" "text_file hb = (if wl then Some [] else None)"
  using assms by (auto simp: heartbeat_acc_pow_init_def split: if_splits)

lemma zero_mem_init:
  "heartbeat_acc_pow_init (int ws) (int bd) wl (zero_mem ws bd)
     = Some (the (heartbeat_acc_pow_init (int ws) (int bd) wl (zero_mem ws bd)))"
  by (simp add: heartbeat_acc_pow_init_def zero_mem_def)

lemma first_beat:
  assumes init: "heartbeat_acc_pow_init (int ws) (int bd) wl mem = Some hb"
      and ws: "1 \<le> ws" and bd: "1 \<le> bd"
  shows "\<exists>hb'. heartbeat_acc hb now reading tg accuracy = Inr (hb', now)
     \<and> first_timestamp hb' = now \<and> last_timestamp hb' = now
     \<and> last_energy hb' = reading / 1000000
     \<and> window hb' ! 0 = 0 \<and> accuracy_window hb' ! 0 = accuracy \<and> power_window hb' ! 0 = 0
     \<and> hb_log hb' ! 0 =
          \<lparr> beat = 0, tag = tg, timestamp = now,
            global_rate = 0, window_rate = 0, instant_rate = 0,
            global_accuracy = accuracy, window_accuracy = accuracy,
            instant_accuracy = accuracy,
            global_power = 0, window_power = 0, instant_power = 0 \<rparr>
     \<and> hb_global_accuracy hb' = accuracy \<and> total_energy hb' = 0
     \<and> counter (state hb') = 1 \<and> buffer_index (state hb') = 1
     \<and> read_index (state hb') = 0 \<and> current_index hb' = 0 \<and> \<not> steady_state hb'
     \<and> text_file hb' = text_file hb"
  unfolding heartbeat_acc_def
  using init_fields[OF init] ws bd
  by (simp add: Let_def in_bounds_def)

lemma last_record:
  assumes "hb_inv ws bd wl hb cs" "cs \<noteq> []" "1 \<le> bd"
  shows "hb_log hb ! ((length cs - 1) mod bd) = reference_record ws cs"
proof -
  have r: "ring_ok bd (hb_log hb) (records ws cs)" using assms(1) by (simp add: hb_inv_def)
  have l: "length cs - 1 < length (records ws cs)" using assms(2) by (simp add: length_records)
  have "length (records ws cs) \<le> length cs - 1 + bd" using assms(3) by (simp add: length_records)
  with r l have "hb_log hb ! ((length cs - 1) mod bd) = records ws cs ! (length cs - 1)"
    unfolding ring_ok_def by blast
  also have "\<dots> = reference_record ws cs"
    using assms(2) by (simp add: records_def)
  finally show ?thesis .
qed

section \<open>The first heartbeat\<close>

text \<open>
  Claim C4. The first call on a freshly initialised engine (\<open>first_timestamp\<close> is the
  unset value \<open>-1\<close>) returns the clock reading \<open>now\<close> and sets
  \<open>first_timestamp = last_timestamp = now\<close> and \<open>last_energy\<close> to the energy read
  (the backend value divided by \<open>1000000\<close>); slot 0 of the three windows holds a zero
  time delta, the given accuracy and zero energy; the record logged in slot 0 has the
  three rates and the three powers zero and the three accuracies equal to the given
  accuracy; the accuracy accumulator is the accuracy, \<open>total_energy\<close> is 0 and
  \<open>counter\<close> is 1.
\<close>

theorem first_heartbeat:
  assumes "heartbeat_acc_pow_init (int ws) (int bd) wl mem = Some hb"
      and "1 \<le> ws" and "1 \<le> bd"
  shows "\<exists>hb'. heartbeat_acc hb now reading tg accuracy = Inr (hb', now)
     \<and> first_timestamp hb' = now \<and> last_timestamp hb' = now
     \<and> last_energy hb' = reading / 1000000
     \<and> window hb' ! 0 = 0 \<and> accuracy_window hb' ! 0 = accuracy \<and> power_window hb' ! 0 = 0
     \<and> hb_log hb' ! 0 =
          \<lparr> beat = 0, tag = tg, timestamp = now,
            global_rate = 0, window_rate = 0, instant_rate = 0,
            global_accuracy = accuracy, window_accuracy = accuracy,
            instant_accuracy = accuracy,
            global_power = 0, window_power = 0, instant_power = 0 \<rparr>
     \<and> hb_global_accuracy hb' = accuracy \<and> total_energy hb' = 0
     \<and> counter (state hb') = 1"
  using first_beat[OF assms, of now reading tg accuracy] by blast

theorem first_heartbeat_witness:
  "heartbeat_acc_pow_init (int 3) (int 1) True (zero_mem 3 1)
     = Some (the (heartbeat_acc_pow_init (int 3) (int 1) True (zero_mem 3 1)))
   \<and> (1::nat) \<le> 3 \<and> (1::nat) \<le> 1
   \<and> (\<exists>hb'. heartbeat_acc (the (heartbeat_acc_pow_init (int 3) (int 1) True (zero_mem 3 1)))
              42 7000000 5 (1/2) = Inr (hb', 42)
     \<and> first_timestamp hb' = 42 \<and> last_timestamp hb' = 42
     \<and> last_energy hb' = 7000000 / 1000000
     \<and> window hb' ! 0 = 0 \<and> accuracy_window hb' ! 0 = 1/2 \<and> power_window hb' ! 0 = 0
     \<and> hb_log hb' ! 0 =
          \<lparr> beat = 0, tag = 5, timestamp = 42,
            global_rate = 0, window_rate = 0, instant_rate = 0,
            global_accuracy = 1/2, window_accuracy = 1/2,
            instant_accuracy = 1/2,
            global_power = 0, window_power = 0, instant_power = 0 \<rparr>
     \<and> hb_global_accuracy hb' = 1/2 \<and> total_energy hb' = 0
     \<and> counter (state hb') = 1)"
  using first_heartbeat[OF zero_mem_init, of 3 1 True 42 7000000 5 "1/2"] zero_mem_init[of 3 1 True]
  by simp

section \<open>The steady-state flag\<close>

text \<open>
  Claim C3. For a window of \<open>ws \<ge> 1\<close> slots the flag \<open>steady_state\<close> is false before
  the first heartbeat and after \<open>n\<close> heartbeats it is true exactly when \<open>n > ws\<close>: false
  up to and including beat \<open>ws\<close>, true at beat \<open>ws + 1\<close> and at every later beat. With
  a log of one slot the second heartbeat writes outside the log (see C9), so the run is
  defined for one heartbeat only.
\<close>

theorem steady_state_transition:
  assumes init: "heartbeat_acc_pow_init (int ws) (int bd) wl mem = Some hb"
      and ws: "1 \<le> ws" and bd: "1 \<le> bd" and defined: "2 \<le> bd \<or> rest = []"
      and t: "c_time c \<noteq> -1"
  shows "\<not> steady_state hb
     \<and> (\<exists>hb'. heartbeats hb (c # rest) = Inr hb'
            \<and> steady_state hb' = (ws < length (c # rest)))"
proof (cases "2 \<le> bd")
  case True
  obtain hb' where r: "heartbeats hb (c # rest) = Inr hb'"
    and i: "hb_inv ws bd wl hb' (c # rest)"
    using heartbeats_inv[OF init ws True t] by blast
  have "steady_state hb' = (ws \<le> length rest)"
    using i by (simp add: hb_inv_def win_inv_def length_deltas)
  then show ?thesis using r init_fields(6)[OF init] by auto
next
  case False
  then have rest: "rest = []" using defined by simp
  obtain hb' where "heartbeat_acc hb (c_time c) (c_reading c) (c_tag c) (c_accuracy c)
      = Inr (hb', c_time c)" "\<not> steady_state hb'"
    using first_beat[OF init ws bd] by blast
  then show ?thesis using rest ws init_fields(6)[OF init] by simp
qed

theorem steady_state_transition_witness:
  "heartbeat_acc_pow_init (int 2) (int 2) False (zero_mem 2 2)
     = Some (the (heartbeat_acc_pow_init (int 2) (int 2) False (zero_mem 2 2)))
   \<and> (1::nat) \<le> 2 \<and> ((2::nat) \<le> 2 \<or> [call 10 0 0 0, call 20 0 0 0] = [])
   \<and> c_time (call 0 0 0 0) \<noteq> -1
   \<and> \<not> steady_state (the (heartbeat_acc_pow_init (int 2) (int 2) False (zero_mem 2 2)))
   \<and> (\<exists>hb'. heartbeats (the (heartbeat_acc_pow_init (int 2) (int 2) False (zero_mem 2 2)))
               (call 0 0 0 0 # [call 10 0 0 0, call 20 0 0 0]) = Inr hb'
            \<and> steady_state hb' = ((2::nat) < length (call 0 0 0 0 # [call 10 0 0 0, call 20 0 0 0])))"
  using steady_state_transition[OF zero_mem_init, of 2 2 "[call 10 0 0 0, call 20 0 0 0]"
      "call 0 0 0 0" False]
    zero_mem_init[of 2 2 False]
  by (simp add: call_def)

section \<open>The two cursors of the log\<close>

text \<open>
  Claim C5 says that both cursors advance on every call, the first included. On the
  first call of an engine with a log of two slots \<open>buffer_index\<close> goes from 0 to 1 and
  \<open>read_index\<close> stays 0.
\<close>

theorem read_index_first_call_counterexample:
  "read_index (state (the (heartbeat_acc_pow_init 1 2 False (zero_mem 1 2)))) = 0
   \<and> map_sum id (read_index \<circ> state \<circ> fst)
        (heartbeat_acc (the (heartbeat_acc_pow_init 1 2 False (zero_mem 1 2))) 0 0 0 1) = Inr 0
   \<and> map_sum id (buffer_index \<circ> state \<circ> fst)
        (heartbeat_acc (the (heartbeat_acc_pow_init 1 2 False (zero_mem 1 2))) 0 0 0 1) = Inr 1"
  by (simp add: heartbeat_acc_pow_init_def zero_mem_def heartbeat_acc_def in_bounds_def Let_def)

text \<open>
  Claim C5, amended. \<open>buffer_index\<close> advances by one on every call and \<open>read_index\<close>
  on every call but the first, and both wrap to 0 at \<open>buffer_depth\<close>: after \<open>n \<ge> 1\<close>
  calls \<open>buffer_index = n mod buffer_depth\<close> and
  \<open>read_index = (n - 1) mod buffer_depth\<close>, the slot of the record written last.
\<close>

theorem cursors_after_heartbeats:
  assumes init: "heartbeat_acc_pow_init (int ws) (int bd) wl mem = Some hb"
      and ws: "1 \<le> ws" and bd: "2 \<le> bd" and t: "c_time c \<noteq> -1"
  shows "\<exists>hb'. heartbeats hb (c # rest) = Inr hb'
           \<and> buffer_index (state hb') = int (length (c # rest) mod bd)
           \<and> read_index (state hb') = int (length rest mod bd)"
proof -
  obtain hb' where r: "heartbeats hb (c # rest) = Inr hb'"
    and i: "hb_inv ws bd wl hb' (c # rest)"
    using heartbeats_inv[OF init ws bd t] by blast
  show ?thesis using r i by (simp add: hb_inv_def)
qed

theorem cursors_after_heartbeats_witness:
  "heartbeat_acc_pow_init (int 1) (int 3) False (zero_mem 1 3)
     = Some (the (heartbeat_acc_pow_init (int 1) (int 3) False (zero_mem 1 3)))
   \<and> (1::nat) \<le> 1 \<and> (2::nat) \<le> 3 \<and> c_time (call 0 0 0 0) \<noteq> -1
   \<and> (\<exists>hb'. heartbeats (the (heartbeat_acc_pow_init (int 1) (int 3) False (zero_mem 1 3)))
               (call 0 0 0 0 # [call 10 0 0 0, call 20 0 0 0]) = Inr hb'
           \<and> buffer_index (state hb') = 0 \<and> read_index (state hb') = 2)"
  using cursors_after_heartbeats[OF zero_mem_init, of 1 3 "call 0 0 0 0" False
      "[call 10 0 0 0, call 20 0 0 0]"]
    zero_mem_init[of 1 3 False]
  by (simp add: call_def)

section \<open>The global rate\<close>

text \<open>
  Claim C6. When \<open>N \<ge> 2\<close> heartbeats are a constant gap of \<open>g > 0\<close> nanoseconds
  apart, the record of beat \<open>N\<close> has
  \<open>global_rate = N / (now - first_timestamp) * 1000000000\<close>, where \<open>N\<close> is the
  counter plus one at that call, and this is \<open>N / ((N - 1) * g')\<close> for the gap
  \<open>g' = g / 1000000000\<close> in seconds.
\<close>

theorem global_rate_constant_gap:
  assumes init: "heartbeat_acc_pow_init (int ws) (int bd) wl mem = Some hb"
      and ws: "1 \<le> ws" and bd: "2 \<le> bd" and t: "c_time c \<noteq> -1"
      and ne: "rest \<noteq> []" and g: "0 < g"
      and gap: "\<forall>i<length (c # rest). c_time ((c # rest) ! i) = c_time c + int i * g"
  shows "\<exists>hb'. heartbeats hb (c # rest) = Inr hb'
           \<and> first_timestamp hb' = c_time c
           \<and> last_timestamp hb' = c_time c + int (length rest) * g
           \<and> counter (state hb') = int (length (c # rest))
           \<and> global_rate (hb_log hb' ! (length rest mod bd))
               = real (length (c # rest))
                   / real_of_int (last_timestamp hb' - first_timestamp hb') * 1000000000
           \<and> global_rate (hb_log hb' ! (length rest mod bd))
               = real (length (c # rest))
                   / (real (length rest) * (real_of_int g / 1000000000))"
proof -
  obtain hb' where r: "heartbeats hb (c # rest) = Inr hb'"
    and i: "hb_inv ws bd wl hb' (c # rest)"
    using heartbeats_inv[OF init ws bd t] by blast
  have bd1: "1 \<le> bd" using bd by simp
  have rec: "hb_log hb' ! (length rest mod bd) = reference_record ws (c # rest)"
    using last_record[OF i _ bd1] by simp
  have "last (c # rest) = (c # rest) ! length rest"
    using last_conv_nth[of "c # rest"] by simp
  then have lastt: "c_time (last (c # rest)) = c_time c + int (length rest) * g"
    using gap by simp
  have ft: "first_timestamp hb' = c_time c" and lt: "last_timestamp hb' = c_time (last (c # rest))"
    and cnt: "counter (state hb') = int (length (c # rest))"
    using i by (simp_all add: hb_inv_def)
  have n: "\<not> length (c # rest) \<le> 1" using ne by (cases rest) simp_all
  have gr: "global_rate (reference_record ws (c # rest))
      = real (length (c # rest))
          / real_of_int (c_time (last (c # rest)) - c_time c) * 1000000000"
    using n by (simp add: reference_record_def Let_def)
  have pos: "0 < real (length rest)" using ne by simp
  have "real (length (c # rest))
          / real_of_int (c_time (last (c # rest)) - c_time c) * 1000000000
      = real (length (c # rest)) / (real (length rest) * (real_of_int g / 1000000000))"
    using g pos unfolding lastt by (simp add: field_simps)
  then show ?thesis
    using r ft lt cnt rec gr lastt by (simp del: length_Cons list.size)
qed

theorem global_rate_constant_gap_witness:
  "heartbeat_acc_pow_init (int 1) (int 2) False (zero_mem 1 2)
     = Some (the (heartbeat_acc_pow_init (int 1) (int 2) False (zero_mem 1 2)))
   \<and> (1::nat) \<le> 1 \<and> (2::nat) \<le> 2 \<and> c_time (call 0 0 0 0) \<noteq> -1
   \<and> [call 500000000 0 0 0, call 1000000000 0 0 0] \<noteq> [] \<and> (0::int) < 500000000
   \<and> c_time ((call 0 0 0 0 # [call 500000000 0 0 0, call 1000000000 0 0 0]) ! 1)
         = c_time (call 0 0 0 0) + int 1 * 500000000
   \<and> c_time ((call 0 0 0 0 # [call 500000000 0 0 0, call 1000000000 0 0 0]) ! 2)
         = c_time (call 0 0 0 0) + int 2 * 500000000
   \<and> (\<exists>hb'. heartbeats (the (heartbeat_acc_pow_init (int 1) (int 2) False (zero_mem 1 2)))
               (call 0 0 0 0 # [call 500000000 0 0 0, call 1000000000 0 0 0]) = Inr hb'
           \<and> global_rate (hb_log hb' ! 0) = 3)"
proof -
  have gap: "\<forall>i<length (call 0 0 0 0 # [call 500000000 0 0 0, call 1000000000 0 0 0]).
         c_time ((call 0 0 0 0 # [call 500000000 0 0 0, call 1000000000 0 0 0]) ! i)
           = c_time (call 0 0 0 0) + int i * 500000000"
    by (simp add: call_def less_Suc_eq nth_Cons')
  show ?thesis
    using global_rate_constant_gap[OF zero_mem_init _ _ _ _ _ gap, of 1 2 False]
      zero_mem_init[of 1 2 False] gap
    by (auto simp: call_def simp del: heartbeats.simps)
qed

section \<open>The engine in double arithmetic\<close>

lemma window_sum_fp_id: "window_sum_fp (\<lambda>x. x) xs n = window_sum xs n"
  by (induction n) simp_all

lemma hb_window_average_accuracy_fp_exact:
  "hb_window_average_accuracy_fp (\<lambda>x. x) (\<lambda>x. x) hb time accuracy energy
     = hb_window_average_accuracy hb time accuracy energy"
  by (simp add: hb_window_average_accuracy_fp_def hb_window_average_accuracy_def
        window_sum_fp_id Let_def diff_divide_distrib add_divide_distrib)

lemma heartbeat_acc_fp_exact:
  "heartbeat_acc_fp (\<lambda>x. x) (\<lambda>x. x) hb time reading tg accuracy
     = heartbeat_acc hb time reading tg accuracy"
  unfolding heartbeat_acc_fp_def heartbeat_acc_def hb_window_average_accuracy_fp_exact
  by (simp add: Let_def)

lemma heartbeats_fp_exact: "heartbeats_fp (\<lambda>x. x) (\<lambda>x. x) hb cs = heartbeats hb cs"
  by (induction cs arbitrary: hb) (simp_all add: heartbeat_acc_fp_exact split: sum.splits)














section \<open>The window against a brute-force recomputation\<close>




lemma hb_inv_window:
  assumes "hb_inv ws bd wl hb cs"
  shows "ring_ok ws (window hb) (deltas (map c_time cs))"
    and "ring_ok ws (accuracy_window hb) (map c_accuracy (tl cs))"
    and "ring_ok ws (power_window hb) (deltas (map joules cs))"
    and "deltas (map c_time cs) \<noteq> [] \<Longrightarrow>
           last_average_accuracy hb = brute_average (trailing ws (map c_accuracy (tl cs)))"
proof -
  have w: "win_inv hb (deltas (map c_time cs)) (map c_accuracy (tl cs)) (deltas (map joules cs))"
    and wsz: "window_size (state hb) = int ws"
    using assms by (simp_all add: hb_inv_def)
  show "ring_ok ws (window hb) (deltas (map c_time cs))"
    and "ring_ok ws (accuracy_window hb) (map c_accuracy (tl cs))"
    and "ring_ok ws (power_window hb) (deltas (map joules cs))"
    and "deltas (map c_time cs) \<noteq> [] \<Longrightarrow>
           last_average_accuracy hb = brute_average (trailing ws (map c_accuracy (tl cs)))"
    using w unfolding win_inv_def wsz by simp_all
qed

section \<open>The seed of the first heartbeat\<close>

text \<open>
  Claim C10. The first heartbeat writes its accuracy to slot 0 of the window and leaves
  \<open>current_index\<close> at 0, so the second heartbeat overwrites slot 0 of the three
  windows with its own sample. The window accuracy reported at any beat after the first
  is the average of the accuracies of the beats after the first, and it is the same
  whatever the accuracy \<open>a'\<close> of the first beat.
\<close>

theorem first_beat_seed_overwritten:
  assumes init: "heartbeat_acc_pow_init (int ws) (int bd) wl mem = Some hb"
      and ws: "1 \<le> ws" and bd: "2 \<le> bd" and t: "c_time c \<noteq> -1"
  shows "\<exists>hb1 hb2 hbn hbn'.
       heartbeats hb [c] = Inr hb1
     \<and> current_index hb1 = 0 \<and> accuracy_window hb1 ! 0 = c_accuracy c
     \<and> heartbeats hb [c, c2] = Inr hb2
     \<and> window hb2 ! 0 = c_time c2 - c_time c
     \<and> accuracy_window hb2 ! 0 = c_accuracy c2
     \<and> power_window hb2 ! 0 = joules c2 - joules c
     \<and> heartbeats hb (c # c2 # rest) = Inr hbn
     \<and> heartbeats hb (c\<lparr>c_accuracy := a'\<rparr> # c2 # rest) = Inr hbn'
     \<and> window_accuracy (hb_log hbn ! (length (c2 # rest) mod bd))
          = brute_average (trailing ws (map c_accuracy (c2 # rest)))
     \<and> window_accuracy (hb_log hbn' ! (length (c2 # rest) mod bd))
          = window_accuracy (hb_log hbn ! (length (c2 # rest) mod bd))
     \<and> last_average_accuracy hbn' = last_average_accuracy hbn"
proof -
  have bd1: "1 \<le> bd" using bd by simp
  obtain hb1 where r1: "heartbeat_acc hb (c_time c) (c_reading c) (c_tag c) (c_accuracy c)
        = Inr (hb1, c_time c)"
    and f1: "current_index hb1 = 0" "accuracy_window hb1 ! 0 = c_accuracy c"
    using first_beat[OF init ws bd1, of "c_time c" "c_reading c" "c_tag c" "c_accuracy c"]
    by blast
  obtain hb2 where r2: "heartbeats hb (c # [c2]) = Inr hb2"
    and i2: "hb_inv ws bd wl hb2 (c # [c2])"
    using heartbeats_inv[OF init ws bd t] by blast
  have w2: "ring_ok ws (window hb2) [c_time c2 - c_time c]"
    "ring_ok ws (accuracy_window hb2) [c_accuracy c2]"
    "ring_ok ws (power_window hb2) [joules c2 - joules c]"
    using hb_inv_window(1-3)[OF i2] by simp_all
  have s2: "window hb2 ! 0 = c_time c2 - c_time c" "accuracy_window hb2 ! 0 = c_accuracy c2"
    "power_window hb2 ! 0 = joules c2 - joules c"
    using w2 ws by (simp_all add: ring_ok_def)
  obtain hbn where rn: "heartbeats hb (c # c2 # rest) = Inr hbn"
    and inn: "hb_inv ws bd wl hbn (c # c2 # rest)"
    using heartbeats_inv[OF init ws bd t] by blast
  have t': "c_time (c\<lparr>c_accuracy := a'\<rparr>) \<noteq> -1" using t by simp
  obtain hbn' where rn': "heartbeats hb (c\<lparr>c_accuracy := a'\<rparr> # c2 # rest) = Inr hbn'"
    and inn': "hb_inv ws bd wl hbn' (c\<lparr>c_accuracy := a'\<rparr> # c2 # rest)"
    using heartbeats_inv[OF init ws bd t'] by blast
  have rec: "hb_log hbn ! (length (c2 # rest) mod bd) = reference_record ws (c # c2 # rest)"
    using last_record[OF inn _ bd1] by simp
  have rec': "hb_log hbn' ! (length (c2 # rest) mod bd)
                = reference_record ws (c\<lparr>c_accuracy := a'\<rparr> # c2 # rest)"
    using last_record[OF inn' _ bd1] by simp
  have wa: "window_accuracy (reference_record ws (x # c2 # rest))
      = brute_average (trailing ws (map c_accuracy (c2 # rest)))" for x
    by (simp add: reference_record_def Let_def)
  have la: "last_average_accuracy hbn = brute_average (trailing ws (map c_accuracy (c2 # rest)))"
    using hb_inv_window(4)[OF inn] by simp
  have la': "last_average_accuracy hbn' = brute_average (trailing ws (map c_accuracy (c2 # rest)))"
    using hb_inv_window(4)[OF inn'] by simp
  show ?thesis
    using r1 f1 r2 s2 rn rn' rec rec' wa la la'
    by (simp del: length_Cons list.size)
qed

theorem first_beat_seed_overwritten_witness:
  "heartbeat_acc_pow_init (int 2) (int 2) False (zero_mem 2 2)
     = Some (the (heartbeat_acc_pow_init (int 2) (int 2) False (zero_mem 2 2)))
   \<and> (1::nat) \<le> 2 \<and> (2::nat) \<le> 2 \<and> c_time (call 0 0 0 1) \<noteq> -1
   \<and> (\<exists>hb2 hbn hbn'.
       heartbeats (the (heartbeat_acc_pow_init (int 2) (int 2) False (zero_mem 2 2)))
         [call 0 0 0 1, call 10 3000000 0 (1/2)] = Inr hb2
     \<and> window hb2 ! 0 = 10 \<and> accuracy_window hb2 ! 0 = 1 / 2 \<and> power_window hb2 ! 0 = 3
     \<and> heartbeats (the (heartbeat_acc_pow_init (int 2) (int 2) False (zero_mem 2 2)))
         (call 0 0 0 1 # call 10 3000000 0 (1/2) # [call 30 0 0 (1/4)]) = Inr hbn
     \<and> heartbeats (the (heartbeat_acc_pow_init (int 2) (int 2) False (zero_mem 2 2)))
         (call 0 0 0 7 # call 10 3000000 0 (1/2) # [call 30 0 0 (1/4)]) = Inr hbn'
     \<and> window_accuracy (hb_log hbn ! 0) = 3 / 8
     \<and> window_accuracy (hb_log hbn' ! 0) = 3 / 8)"
  using first_beat_seed_overwritten[OF zero_mem_init, of 2 2 "call 0 0 0 1" False
      "call 10 3000000 0 (1/2)" "[call 30 0 0 (1/4)]" 7]
    zero_mem_init[of 2 2 False]
  by (auto simp: call_def trailing_def brute_average_def joules_def simp del: heartbeats.simps)

section \<open>A log of one slot\<close>

text \<open>
  Claim C9 asks that the index at which a record is stored is less than
  \<open>buffer_depth\<close>. With \<open>buffer_depth = 1\<close> the first heartbeat leaves
  \<open>buffer_index = 1\<close>, and the second heartbeat stores its record at index 1 of a log
  of one slot.
\<close>

theorem log_write_out_of_bounds:
  "map_sum id (buffer_index \<circ> state \<circ> fst)
     (heartbeat_acc (the (heartbeat_acc_pow_init 1 1 True (zero_mem 1 1))) 0 0 0 1) = Inr 1
   \<and> buffer_depth (state (the (heartbeat_acc_pow_init 1 1 True (zero_mem 1 1)))) = 1
   \<and> length (hb_log (the (heartbeat_acc_pow_init 1 1 True (zero_mem 1 1)))) = 1
   \<and> heartbeats (the (heartbeat_acc_pow_init 1 1 True (zero_mem 1 1)))
        [call 0 0 0 1, call 1000000000 10000000 1 (4/5)] = Inl Log_out_of_bounds"
  by (simp add: heartbeat_acc_pow_init_def zero_mem_def heartbeat_acc_def in_bounds_def Let_def
        hb_window_average_accuracy_def call_def hb_flush_buffer_def)

text \<open>
  Claim C2 asks for a flush every \<open>buffer_depth\<close> calls. With \<open>buffer_depth = 1\<close>
  and a text log, the first heartbeat brings \<open>buffer_index\<close> to \<open>buffer_depth\<close>
  and nothing is flushed and the index is not reset.
\<close>

theorem no_flush_at_depth_one:
  "map_sum id (text_file \<circ> fst)
     (heartbeat_acc (the (heartbeat_acc_pow_init 1 1 True (zero_mem 1 1))) 0 0 0 1)
     = Inr (Some [])
   \<and> map_sum id (buffer_index \<circ> state \<circ> fst)
     (heartbeat_acc (the (heartbeat_acc_pow_init 1 1 True (zero_mem 1 1))) 0 0 0 1) = Inr 1"
  by (simp add: heartbeat_acc_pow_init_def zero_mem_def heartbeat_acc_def in_bounds_def Let_def)

text \<open>
  With a log of at least two slots the flushes are as the claim says: after \<open>n\<close>
  heartbeats there have been \<open>n div buffer_depth\<close> flushes of \<open>buffer_depth\<close>
  records each, their concatenation is the records of the first
  \<open>(n div buffer_depth) * buffer_depth\<close> beats in call order, and the records of the
  remaining beats are in the log, below \<open>buffer_index\<close>.
\<close>

lemma flush_cadence:
  assumes init: "heartbeat_acc_pow_init (int ws) (int bd) True mem = Some hb"
      and ws: "1 \<le> ws" and bd: "2 \<le> bd" and t: "c_time c \<noteq> -1"
  shows "\<exists>hb' chunks. heartbeats hb (c # rest) = Inr hb'
     \<and> text_file hb' = Some chunks
     \<and> length chunks = length (c # rest) div bd
     \<and> (\<forall>ch\<in>set chunks. length ch = bd)
     \<and> concat chunks
         = take (length (c # rest) div bd * bd) (records ws (c # rest))
     \<and> buffer_index (state hb') = int (length (c # rest) mod bd)
     \<and> take (length (c # rest) mod bd) (hb_log hb')
         = drop (length (c # rest) div bd * bd) (records ws (c # rest))"
proof -
  obtain hb' where r: "heartbeats hb (c # rest) = Inr hb'"
    and i: "hb_inv ws bd True hb' (c # rest)"
    using heartbeats_inv[OF init ws bd t] by blast
  define recs where "recs = records ws (c # rest)"
  define n where "n = length (c # rest)"
  have tf: "text_file hb' = Some (flushed bd recs)"
    and bi: "buffer_index (state hb') = int (n mod bd)"
    and lg: "ring_ok bd (hb_log hb') recs"
    using i by (simp_all add: hb_inv_def recs_def n_def)
  have bd0: "0 < bd" using bd by simp
  have ln: "length recs = n" by (simp add: recs_def n_def length_records)
  have nn: "n div bd * bd + n mod bd = n" by simp
  have pending: "take (n mod bd) (hb_log hb') = drop (n div bd * bd) recs"
  proof (rule nth_equalityI)
    show "length (take (n mod bd) (hb_log hb')) = length (drop (n div bd * bd) recs)"
      using lg bd0 ln by (simp add: ring_ok_def minus_mod_eq_div_mult[symmetric])
  next
    fix i assume "i < length (take (n mod bd) (hb_log hb'))"
    then have ib: "i < n mod bd" by simp
    then have lt: "n div bd * bd + i < length recs" using ln nn by linarith
    have ib': "i < bd" using ib bd0 by (meson less_trans mod_less_divisor)
    have "length recs \<le> n div bd * bd + i + bd" using ln nn
      using mod_less_divisor[OF bd0, of n] by linarith
    with lg lt have "hb_log hb' ! ((n div bd * bd + i) mod bd) = recs ! (n div bd * bd + i)"
      unfolding ring_ok_def by blast
    then have "hb_log hb' ! i = recs ! (n div bd * bd + i)" using ib' by simp
    then show "take (n mod bd) (hb_log hb') ! i = drop (n div bd * bd) recs ! i"
      using ib lt by simp
  qed
  show ?thesis
    using r tf bi pending ln flushed_chunk_length[OF bd0, of _ recs]
    by (simp add: length_flushed concat_flushed recs_def[symmetric] n_def[symmetric]
          del: length_Cons list.size)
qed

section \<open>The polling backend\<close>

lemma osp_ok_init: "osp_ok (hb_energy_init_osp now)"
  by (simp add: osp_ok_def hb_energy_init_osp_def)

lemma osp_ok_step: "osp_ok s \<Longrightarrow> osp_ok (osp_step s e)"
  by (cases e) (auto simp: osp_ok_def osp_poll_device_def hb_energy_read_total_osp_def Let_def)

lemma osp_ok_run: "osp_ok s \<Longrightarrow> osp_ok (osp_run s es)"
  by (induction es arbitrary: s) (simp_all add: osp_ok_step)

lemma osp_avg_nonneg_step:
  assumes "osp_ok s" "0 \<le> osp_hb_pwr_avg s" "sample_ok e"
  shows "0 \<le> osp_hb_pwr_avg (osp_step s e)"
proof (cases e)
  case (Sample w)
  then have w: "0 \<le> w" using assms(3) by simp
  have c: "0 \<le> osp_hb_pwr_avg_count s" using assms(1) by (simp add: osp_ok_def)
  have "0 \<le> (w + real_of_int (osp_hb_pwr_avg_count s) * osp_hb_pwr_avg s)
              / real_of_int (osp_hb_pwr_avg_count s + 1)"
    using w c assms(2)
    by (intro divide_nonneg_nonneg add_nonneg_nonneg mult_nonneg_nonneg) simp_all
  then show ?thesis using Sample by (simp add: osp_poll_device_def)
next
  case (Read l c)
  then show ?thesis
    using assms(2) by (simp add: hb_energy_read_total_osp_def Let_def)
qed

lemma osp_avg_nonneg_run:
  "osp_ok s \<Longrightarrow> 0 \<le> osp_hb_pwr_avg s \<Longrightarrow> list_all sample_ok es
     \<Longrightarrow> 0 \<le> osp_hb_pwr_avg (osp_run s es)"
  by (induction es arbitrary: s) (simp_all add: osp_ok_step osp_avg_nonneg_step)

lemma osp_last_pos_step:
  "0 < osp_hb_pwr_avg_last s \<Longrightarrow> 0 < osp_hb_pwr_avg_last (osp_step s e)"
  by (cases e) (simp_all add: osp_poll_device_def hb_energy_read_total_osp_def Let_def)

lemma osp_last_pos_run:
  "0 < osp_hb_pwr_avg_last s \<Longrightarrow> 0 < osp_hb_pwr_avg_last (osp_run s es)"
  by (induction es arbitrary: s) (simp_all add: osp_last_pos_step)

lemma osp_read_no_samples:
  assumes "osp_ok s" "osp_hb_pwr_avg_count s = 0"
  shows "osp_hb_pwr_avg s = 0"
    and "osp_hb_pwr_avg_last (fst (hb_energy_read_total_osp s l c)) = osp_hb_pwr_avg_last s"
    and "snd (hb_energy_read_total_osp s l c)
           = osp_total_energy s
             + osp_hb_pwr_avg_last s * diff_sec (if l < 0 then osp_start_time s else l) c"
  using assms by (simp_all add: osp_ok_def hb_energy_read_total_osp_def Let_def)

text \<open>
  Claim C7. Let a read find a non-zero running average \<open>osp_hb_pwr_avg s\<close> (the samples
  before it are not negative, so it is positive). A second read with no sample in
  between finds the count and the average reset to 0 and accumulates the energy of its
  interval with that average. After any later samples and reads \<open>es'\<close> the remembered
  average \<open>osp_hb_pwr_avg_last\<close> is still positive, and a read that finds no sample
  (count 0, hence average 0) keeps it and uses it for its interval.
\<close>

theorem polling_carry_forward:
  assumes samples: "list_all sample_ok es"
      and s: "s = osp_run (hb_energy_init_osp start) es"
      and seen: "osp_hb_pwr_avg s \<noteq> 0"
      and s1: "s1 = fst (hb_energy_read_total_osp s l c)"
      and s2: "s2 = osp_run s1 es'"
  shows "osp_hb_pwr_avg_count s1 = 0 \<and> osp_hb_pwr_avg s1 = 0
     \<and> osp_hb_pwr_avg_last s1 = osp_hb_pwr_avg s
     \<and> snd (hb_energy_read_total_osp s1 l' c')
         = snd (hb_energy_read_total_osp s l c)
           + osp_hb_pwr_avg s * diff_sec (if l' < 0 then osp_start_time s1 else l') c'
     \<and> 0 < osp_hb_pwr_avg_last s2
     \<and> (osp_hb_pwr_avg_count s2 = 0 \<longrightarrow>
          osp_hb_pwr_avg s2 = 0
        \<and> osp_hb_pwr_avg_last (fst (hb_energy_read_total_osp s2 l' c')) = osp_hb_pwr_avg_last s2
        \<and> snd (hb_energy_read_total_osp s2 l' c')
            = osp_total_energy s2
              + osp_hb_pwr_avg_last s2 * diff_sec (if l' < 0 then osp_start_time s2 else l') c')"
proof -
  have ok: "osp_ok s" unfolding s using osp_ok_init by (rule osp_ok_run)
  have "0 \<le> osp_hb_pwr_avg s"
    unfolding s using osp_ok_init _ samples
    by (rule osp_avg_nonneg_run) (simp add: hb_energy_init_osp_def)
  then have pos: "0 < osp_hb_pwr_avg s" using seen by simp
  have dev: "device s" using ok by (simp add: osp_ok_def)
  have ok1: "osp_ok s1"
    using osp_ok_step[OF ok, of "Read l c"] by (simp add: s1)
  have f1: "osp_hb_pwr_avg_count s1 = 0" "osp_hb_pwr_avg s1 = 0"
    "osp_hb_pwr_avg_last s1 = osp_hb_pwr_avg s"
    "osp_total_energy s1 = snd (hb_energy_read_total_osp s l c)"
    using pos dev by (simp_all add: s1 hb_energy_read_total_osp_def Let_def)
  have r1: "snd (hb_energy_read_total_osp s1 l' c')
         = snd (hb_energy_read_total_osp s l c)
           + osp_hb_pwr_avg s * diff_sec (if l' < 0 then osp_start_time s1 else l') c'"
    using osp_read_no_samples(3)[OF ok1 f1(1), of l' c'] f1 by simp
  have ok2: "osp_ok s2" unfolding s2 using ok1 by (rule osp_ok_run)
  have p2: "0 < osp_hb_pwr_avg_last s2"
    unfolding s2 using pos f1(3) by (intro osp_last_pos_run) simp
  show ?thesis
    using f1 r1 p2 osp_read_no_samples[OF ok2] by simp
qed

theorem polling_carry_forward_witness:
  "list_all sample_ok [Sample 2, Sample 4]
   \<and> osp_hb_pwr_avg (osp_run (hb_energy_init_osp 0) [Sample 2, Sample 4]) \<noteq> 0
   \<and> osp_hb_pwr_avg_last
        (fst (hb_energy_read_total_osp (osp_run (hb_energy_init_osp 0) [Sample 2, Sample 4])
           (-1) 1000000000)) = 3
   \<and> snd (hb_energy_read_total_osp
        (fst (hb_energy_read_total_osp (osp_run (hb_energy_init_osp 0) [Sample 2, Sample 4])
           (-1) 1000000000)) 1000000000 3000000000) = 3 + 3 * 2
   \<and> 0 < osp_hb_pwr_avg_last
        (osp_run (fst (hb_energy_read_total_osp
            (osp_run (hb_energy_init_osp 0) [Sample 2, Sample 4]) (-1) 1000000000))
          [Read 10 20, Sample 0])"
proof -
  have a: "list_all sample_ok [Sample 2, Sample 4]"
    by simp
  have b: "osp_hb_pwr_avg (osp_run (hb_energy_init_osp 0) [Sample 2, Sample 4]) = 3"
    by (simp add: hb_energy_init_osp_def osp_poll_device_def)
  have c: "snd (hb_energy_read_total_osp (osp_run (hb_energy_init_osp 0) [Sample 2, Sample 4])
            (-1) 1000000000) = 3"
    by (simp add: hb_energy_init_osp_def osp_poll_device_def hb_energy_read_total_osp_def
          Let_def diff_sec_def)
  have d: "osp_hb_pwr_avg (osp_run (hb_energy_init_osp 0) [Sample 2, Sample 4]) \<noteq> 0"
    using b by simp
  show ?thesis
    using polling_carry_forward[OF a refl d refl refl,
        of "-1" 1000000000 1000000000 3000000000 "[Read 10 20, Sample 0]"]
      a b c
    by (simp add: diff_sec_def)
qed

section \<open>Backend errors\<close>

lemma heartbeats_Cons_inv:
  assumes init: "heartbeat_acc_pow_init (int ws) (int bd) wl mem = Some hb"
      and ws: "1 \<le> ws" and bd: "2 \<le> bd" and t: "c_time c \<noteq> -1"
      and run: "heartbeats hb (c # rest) = Inr hb1"
  shows "hb_inv ws bd wl hb1 (c # rest)"
  using heartbeats_inv[OF init ws bd t, of rest] run by auto

lemma deltas_pos:
  fixes xs :: "int list"
  shows "sorted_wrt (<) xs \<Longrightarrow> d \<in> set (deltas xs) \<Longrightarrow> 0 < d"
  by (induction xs rule: deltas.induct) auto

lemma set_trailing: "set (trailing k xs) \<subseteq> set xs"
  by (simp add: trailing_def set_drop_subset)

lemma trailing_nonempty: "0 < k \<Longrightarrow> xs \<noteq> [] \<Longrightarrow> trailing k xs \<noteq> []"
proof -
  assume "0 < k" "xs \<noteq> []"
  then have "length xs - k < length xs" by (cases xs) auto
  then show ?thesis by (simp add: trailing_def)
qed

lemma sum_list_positive:
  fixes xs :: "real list"
  shows "xs \<noteq> [] \<Longrightarrow> (\<And>x. x \<in> set xs \<Longrightarrow> 0 < x) \<Longrightarrow> 0 < sum_list xs"
  by (induction xs) (auto intro: add_pos_nonneg sum_list_nonneg less_imp_le)

lemma hb_inv_sums:
  assumes "hb_inv ws bd wl hb cs" "deltas (map c_time cs) \<noteq> []"
  shows "last_window_time hb = sum_list (map real_of_int (trailing ws (deltas (map c_time cs))))"
    and "last_window_energy hb = sum_list (trailing ws (deltas (map joules cs)))"
proof -
  have w: "win_inv hb (deltas (map c_time cs)) (map c_accuracy (tl cs)) (deltas (map joules cs))"
    and wsz: "window_size (state hb) = int ws"
    using assms(1) by (simp_all add: hb_inv_def)
  show "last_window_time hb = sum_list (map real_of_int (trailing ws (deltas (map c_time cs))))"
    and "last_window_energy hb = sum_list (trailing ws (deltas (map joules cs)))"
    using w assms(2) unfolding win_inv_def wsz by simp_all
qed

lemma reading_consumed:
  assumes inv: "hb_inv ws bd wl hb1 cs" and ne: "cs \<noteq> []" and bd: "1 \<le> bd"
  shows "\<exists>hb2. heartbeat_acc hb1 now r tg a = Inr (hb2, now)
     \<and> last_energy hb2 = r / 1000000
     \<and> counter (state hb2) = counter (state hb1) + 1
     \<and> total_energy hb2 = total_energy hb1 + (r / 1000000 - last_energy hb1)
     \<and> last_window_energy hb2
          = sum_list (trailing ws (deltas (map joules cs) @ [r / 1000000 - last_energy hb1]))
     \<and> last_window_time hb2
          = sum_list (map real_of_int
              (trailing ws (deltas (map c_time cs) @ [now - last_timestamp hb1])))
     \<and> beat (hb_log hb2 ! nat (buffer_index (state hb1))) = counter (state hb1)
     \<and> timestamp (hb_log hb2 ! nat (buffer_index (state hb1))) = now
     \<and> instant_power (hb_log hb2 ! nat (buffer_index (state hb1)))
          = (r / 1000000 - last_energy hb1) / real_of_int (now - last_timestamp hb1)
              * 1000000000
     \<and> global_power (hb_log hb2 ! nat (buffer_index (state hb1)))
          = total_energy hb2 / real_of_int (now - first_timestamp hb1) * 1000000000
     \<and> window_power (hb_log hb2 ! nat (buffer_index (state hb1)))
          = last_window_energy hb2 / (last_window_time hb2 / 1000000000)"
proof -
  define c where "c = call now r tg a"
  have cf: "c_time c = now" "c_reading c = r" "c_tag c = tg" "c_accuracy c = a"
    "joules c = r / 1000000"
    by (simp_all add: c_def call_def joules_def)
  obtain hb2 where r2: "heartbeat_acc hb1 now r tg a = Inr (hb2, now)"
    and i2: "hb_inv ws bd wl hb2 (cs @ [c])"
    using next_beat_inv[OF inv ne bd, of c] unfolding cf by blast
  have f1: "counter (state hb1) = int (length cs)" "last_energy hb1 = joules (last cs)"
    "total_energy hb1 = joules (last cs) - joules (hd cs)"
    "last_timestamp hb1 = c_time (last cs)" "first_timestamp hb1 = c_time (hd cs)"
    "buffer_index (state hb1) = int (length cs mod bd)"
    using inv by (simp_all add: hb_inv_def)
  have f2: "counter (state hb2) = int (length cs) + 1" "last_energy hb2 = r / 1000000"
    "total_energy hb2 = r / 1000000 - joules (hd cs)"
    using i2 ne by (simp_all add: hb_inv_def cf)
  have dt: "deltas (map c_time (cs @ [c])) = deltas (map c_time cs) @ [now - last_timestamp hb1]"
    using ne by (simp add: deltas_map_snoc cf f1)
  have de: "deltas (map joules (cs @ [c]))
              = deltas (map joules cs) @ [r / 1000000 - last_energy hb1]"
    using ne by (simp add: deltas_map_snoc cf f1)
  have dne: "deltas (map c_time (cs @ [c])) \<noteq> []" unfolding dt by simp
  have sums: "last_window_time hb2
      = sum_list (map real_of_int (trailing ws (deltas (map c_time (cs @ [c])))))"
    "last_window_energy hb2 = sum_list (trailing ws (deltas (map joules (cs @ [c]))))"
    using hb_inv_sums[OF i2 dne] by simp_all
  have rec: "hb_log hb2 ! nat (buffer_index (state hb1)) = reference_record ws (cs @ [c])"
    using last_record[OF i2 _ bd] by (simp add: f1)
  have n: "\<not> length (cs @ [c]) \<le> 1" using ne by (cases cs) simp_all
  have rr: "beat (reference_record ws (cs @ [c])) = int (length cs)"
    "timestamp (reference_record ws (cs @ [c])) = now"
    "instant_power (reference_record ws (cs @ [c]))
       = (r / 1000000 - joules (last cs)) / real_of_int (now - c_time (last cs)) * 1000000000"
    "global_power (reference_record ws (cs @ [c]))
       = (r / 1000000 - joules (hd cs)) / real_of_int (now - c_time (hd cs)) * 1000000000"
    "window_power (reference_record ws (cs @ [c]))
       = sum_list (trailing ws (deltas (map joules (cs @ [c]))))
           / (sum_list (map real_of_int (trailing ws (deltas (map c_time (cs @ [c])))))
                / 1000000000)"
    using n ne by (simp_all add: reference_record_def Let_def cf)
  have te: "total_energy hb2 = total_energy hb1 + (r / 1000000 - last_energy hb1)"
    by (simp add: f1 f2)
  have c1: "counter (state hb2) = counter (state hb1) + 1" by (simp add: f1 f2)
  have we: "last_window_energy hb2
          = sum_list (trailing ws (deltas (map joules cs) @ [r / 1000000 - last_energy hb1]))"
    using sums(2) by (simp only: de)
  have wt: "last_window_time hb2
          = sum_list (map real_of_int
              (trailing ws (deltas (map c_time cs) @ [now - last_timestamp hb1])))"
    using sums(1) by (simp only: dt)
  have p1: "instant_power (hb_log hb2 ! nat (buffer_index (state hb1)))
          = (r / 1000000 - last_energy hb1) / real_of_int (now - last_timestamp hb1)
              * 1000000000"
    by (simp only: rec rr) (simp add: f1)
  have p2: "global_power (hb_log hb2 ! nat (buffer_index (state hb1)))
          = total_energy hb2 / real_of_int (now - first_timestamp hb1) * 1000000000"
    by (simp only: rec rr) (simp add: f1 f2)
  have p3: "window_power (hb_log hb2 ! nat (buffer_index (state hb1)))
          = last_window_energy hb2 / (last_window_time hb2 / 1000000000)"
    by (simp only: rec rr sums)
  have b: "beat (hb_log hb2 ! nat (buffer_index (state hb1))) = counter (state hb1)"
    "timestamp (hb_log hb2 ! nat (buffer_index (state hb1))) = now"
    by (simp_all only: rec rr) (simp_all add: f1)
  show ?thesis
    using r2 f2(2) c1 te we wt b p1 p2 p3 by blast
qed


lemma clock_increasing:
  assumes inv: "hb_inv ws bd wl hb1 cs" and ne: "cs \<noteq> []" and ws: "1 \<le> ws"
      and inc: "sorted_wrt (<) (map c_time cs @ [now])"
  shows "0 < now - last_timestamp hb1" and "0 < now - first_timestamp hb1"
    and "0 < sum_list (map real_of_int
              (trailing ws (deltas (map c_time cs) @ [now - last_timestamp hb1])))"
proof -
  have f1: "last_timestamp hb1 = c_time (last cs)" "first_timestamp hb1 = c_time (hd cs)"
    using inv by (simp_all add: hb_inv_def)
  have lt: "\<And>x. x \<in> set (map c_time cs) \<Longrightarrow> x < now"
    using inc by (auto simp: sorted_wrt_append)
  show "0 < now - last_timestamp hb1" using lt[of "c_time (last cs)"] ne by (simp add: f1)
  show "0 < now - first_timestamp hb1" using lt[of "c_time (hd cs)"] ne by (simp add: f1)
  have d: "deltas (map c_time cs) @ [now - last_timestamp hb1] = deltas (map c_time cs @ [now])"
    using ne by (simp add: deltas_map_snoc f1)
  have pos: "\<And>x. x \<in> set (trailing ws (deltas (map c_time cs @ [now]))) \<Longrightarrow> 0 < x"
    using deltas_pos[OF inc] set_trailing[of ws "deltas (map c_time cs @ [now])"] by blast
  have "deltas (map c_time cs @ [now]) \<noteq> []" using d[symmetric] by simp
  then have tne: "trailing ws (deltas (map c_time cs @ [now])) \<noteq> []"
    using ws by (intro trailing_nonempty) simp_all
  show "0 < sum_list (map real_of_int
              (trailing ws (deltas (map c_time cs) @ [now - last_timestamp hb1])))"
    unfolding d using tne pos by (intro sum_list_positive) auto
qed

text \<open>
  Claim C8. A read of the backend whose device is not initialised returns \<open>-1\<close>. On
  an engine reached by any heartbeats, \<open>heartbeat_acc\<close> returns the clock reading
  \<open>now\<close> whatever the backend returned, \<open>-1\<close> included, and registers the
  heartbeat with that value taken as an energy: the value divided by \<open>1000000\<close>
  becomes \<open>last_energy\<close>; on a first call the energy total is 0 and the logged
  powers are 0; on a later call the counter advances, the difference to the previous
  energy is added to \<open>total_energy\<close> and enters the window energy, and the record
  logged for the beat carries them: when the clock is strictly increasing, the three
  intervals that divide are positive and the instant, global and window power of the
  record are the energy difference, the energy total and the window energy over them.
\<close>

theorem backend_error_consumed:
  assumes init: "heartbeat_acc_pow_init (int ws) (int bd) wl mem = Some hb"
      and ws: "1 \<le> ws" and bd: "2 \<le> bd"
      and clock: "\<forall>c\<in>set cs. c_time c \<noteq> -1"
      and run: "heartbeats hb cs = Inr hb1"
  shows "snd (hb_energy_read_total_osp (s\<lparr>device := False\<rparr>) last_hb_time curr_hb_time) = -1
     \<and> (\<exists>hb2. heartbeat_acc hb1 now reading tg accuracy = Inr (hb2, now)
            \<and> last_energy hb2 = reading / 1000000)
     \<and> (\<exists>hb2. heartbeat_acc hb1 now (-1) tg accuracy = Inr (hb2, now)
            \<and> last_energy hb2 = -1 / 1000000)
     \<and> (cs = [] \<longrightarrow>
          (\<exists>hb2. heartbeat_acc hb1 now reading tg accuracy = Inr (hb2, now)
             \<and> last_energy hb2 = reading / 1000000
             \<and> counter (state hb2) = 1 \<and> total_energy hb2 = 0
             \<and> beat (hb_log hb2 ! 0) = 0 \<and> timestamp (hb_log hb2 ! 0) = now
             \<and> instant_power (hb_log hb2 ! 0) = 0 \<and> global_power (hb_log hb2 ! 0) = 0
             \<and> window_power (hb_log hb2 ! 0) = 0))
     \<and> (cs \<noteq> [] \<longrightarrow>
          (\<exists>hb2. heartbeat_acc hb1 now reading tg accuracy = Inr (hb2, now)
             \<and> last_energy hb2 = reading / 1000000
             \<and> counter (state hb2) = counter (state hb1) + 1
             \<and> total_energy hb2 = total_energy hb1 + (reading / 1000000 - last_energy hb1)
             \<and> last_window_energy hb2
                  = sum_list (trailing ws
                      (deltas (map joules cs) @ [reading / 1000000 - last_energy hb1]))
             \<and> beat (hb_log hb2 ! nat (buffer_index (state hb1))) = counter (state hb1)
             \<and> timestamp (hb_log hb2 ! nat (buffer_index (state hb1))) = now
             \<and> (sorted_wrt (<) (map c_time cs @ [now]) \<longrightarrow>
                   0 < now - last_timestamp hb1 \<and> 0 < now - first_timestamp hb1
                 \<and> 0 < last_window_time hb2
                 \<and> instant_power (hb_log hb2 ! nat (buffer_index (state hb1)))
                      = (reading / 1000000 - last_energy hb1)
                          / real_of_int (now - last_timestamp hb1) * 1000000000
                 \<and> global_power (hb_log hb2 ! nat (buffer_index (state hb1)))
                      = total_energy hb2 / real_of_int (now - first_timestamp hb1)
                          * 1000000000
                 \<and> window_power (hb_log hb2 ! nat (buffer_index (state hb1)))
                      = last_window_energy hb2 / (last_window_time hb2 / 1000000000))))"
proof -
  have bd1: "1 \<le> bd" using bd by simp
  have dev: "snd (hb_energy_read_total_osp (s\<lparr>device := False\<rparr>) last_hb_time curr_hb_time) = -1"
    by (simp add: hb_energy_read_total_osp_def)
  have fresh: "\<exists>hb2. heartbeat_acc hb1 now r tg accuracy = Inr (hb2, now)
             \<and> last_energy hb2 = r / 1000000
             \<and> counter (state hb2) = 1 \<and> total_energy hb2 = 0
             \<and> beat (hb_log hb2 ! 0) = 0 \<and> timestamp (hb_log hb2 ! 0) = now
             \<and> instant_power (hb_log hb2 ! 0) = 0 \<and> global_power (hb_log hb2 ! 0) = 0
             \<and> window_power (hb_log hb2 ! 0) = 0" if "cs = []" for r
  proof -
    have "hb1 = hb" using run that by simp
    then obtain hb2 where h: "heartbeat_acc hb1 now r tg accuracy = Inr (hb2, now)"
      "last_energy hb2 = r / 1000000" "counter (state hb2) = 1" "total_energy hb2 = 0"
      "hb_log hb2 ! 0 =
          \<lparr> beat = 0, tag = tg, timestamp = now,
            global_rate = 0, window_rate = 0, instant_rate = 0,
            global_accuracy = accuracy, window_accuracy = accuracy,
            instant_accuracy = accuracy,
            global_power = 0, window_power = 0, instant_power = 0 \<rparr>"
      using first_beat[OF init ws bd1, of now r tg accuracy] by blast
    show ?thesis using h(1-4) by (simp add: h(5))
  qed
  have later: "\<exists>hb2. heartbeat_acc hb1 now r tg accuracy = Inr (hb2, now)
             \<and> last_energy hb2 = r / 1000000
             \<and> counter (state hb2) = counter (state hb1) + 1
             \<and> total_energy hb2 = total_energy hb1 + (r / 1000000 - last_energy hb1)
             \<and> last_window_energy hb2
                  = sum_list (trailing ws
                      (deltas (map joules cs) @ [r / 1000000 - last_energy hb1]))
             \<and> beat (hb_log hb2 ! nat (buffer_index (state hb1))) = counter (state hb1)
             \<and> timestamp (hb_log hb2 ! nat (buffer_index (state hb1))) = now
             \<and> (sorted_wrt (<) (map c_time cs @ [now]) \<longrightarrow>
                   0 < now - last_timestamp hb1 \<and> 0 < now - first_timestamp hb1
                 \<and> 0 < last_window_time hb2
                 \<and> instant_power (hb_log hb2 ! nat (buffer_index (state hb1)))
                      = (r / 1000000 - last_energy hb1)
                          / real_of_int (now - last_timestamp hb1) * 1000000000
                 \<and> global_power (hb_log hb2 ! nat (buffer_index (state hb1)))
                      = total_energy hb2 / real_of_int (now - first_timestamp hb1)
                          * 1000000000
                 \<and> window_power (hb_log hb2 ! nat (buffer_index (state hb1)))
                      = last_window_energy hb2 / (last_window_time hb2 / 1000000000))" if ne: "cs \<noteq> []" for r
  proof -
    obtain c rest where cs: "cs = c # rest" using ne by (cases cs) auto
    have t: "c_time c \<noteq> -1" using clock cs by simp
    have i: "hb_inv ws bd wl hb1 cs"
      using heartbeats_Cons_inv[OF init ws bd t] run cs by simp
    obtain hb2 where h: "heartbeat_acc hb1 now r tg accuracy = Inr (hb2, now)"
      "last_energy hb2 = r / 1000000"
      "counter (state hb2) = counter (state hb1) + 1"
      "total_energy hb2 = total_energy hb1 + (r / 1000000 - last_energy hb1)"
      "last_window_energy hb2
          = sum_list (trailing ws (deltas (map joules cs) @ [r / 1000000 - last_energy hb1]))"
      "last_window_time hb2
          = sum_list (map real_of_int
              (trailing ws (deltas (map c_time cs) @ [now - last_timestamp hb1])))"
      "beat (hb_log hb2 ! nat (buffer_index (state hb1))) = counter (state hb1)"
      "timestamp (hb_log hb2 ! nat (buffer_index (state hb1))) = now"
      "instant_power (hb_log hb2 ! nat (buffer_index (state hb1)))
          = (r / 1000000 - last_energy hb1) / real_of_int (now - last_timestamp hb1)
              * 1000000000"
      "global_power (hb_log hb2 ! nat (buffer_index (state hb1)))
          = total_energy hb2 / real_of_int (now - first_timestamp hb1) * 1000000000"
      "window_power (hb_log hb2 ! nat (buffer_index (state hb1)))
          = last_window_energy hb2 / (last_window_time hb2 / 1000000000)"
      using reading_consumed[OF i ne bd1, of now r tg accuracy] by blast
    have "0 < now - last_timestamp hb1 \<and> 0 < now - first_timestamp hb1
            \<and> 0 < last_window_time hb2"
      if "sorted_wrt (<) (map c_time cs @ [now])"
      using clock_increasing[OF i ne ws that] h(6) by simp
    then show ?thesis using h(1-5,7-11) by blast
  qed
  have any: "\<exists>hb2. heartbeat_acc hb1 now r tg accuracy = Inr (hb2, now)
            \<and> last_energy hb2 = r / 1000000" for r
    using fresh[of r] later[of r] by (cases "cs = []") blast+
  show ?thesis
    using dev any[of reading] any[of "-1"] fresh[of reading] later[of reading] by blast
qed

theorem backend_error_consumed_witness:
  "heartbeat_acc_pow_init (int 1) (int 2) False (zero_mem 1 2)
     = Some (the (heartbeat_acc_pow_init (int 1) (int 2) False (zero_mem 1 2)))
   \<and> (1::nat) \<le> 1 \<and> (2::nat) \<le> 2
   \<and> c_time (call 0 5000000 0 1) \<noteq> -1
   \<and> heartbeats (the (heartbeat_acc_pow_init (int 1) (int 2) False (zero_mem 1 2)))
        [call 0 5000000 0 1]
      = Inr (fst (projr (heartbeat_acc
          (the (heartbeat_acc_pow_init (int 1) (int 2) False (zero_mem 1 2))) 0 5000000 0 1)))
   \<and> snd (hb_energy_read_total_osp ((hb_energy_init_osp 0)\<lparr>device := False\<rparr>) 0 10) = -1
   \<and> (\<exists>hb2. heartbeat_acc (fst (projr (heartbeat_acc
          (the (heartbeat_acc_pow_init (int 1) (int 2) False (zero_mem 1 2))) 0 5000000 0 1)))
          10 (-1) 7 1 = Inr (hb2, 10)
        \<and> last_energy hb2 = -1 / 1000000
        \<and> counter (state hb2) = 2
        \<and> total_energy hb2 = - 5000001 / 1000000
        \<and> last_window_energy hb2 = - 5000001 / 1000000
        \<and> beat (hb_log hb2 ! 1) = 1 \<and> timestamp (hb_log hb2 ! 1) = 10
        \<and> instant_power (hb_log hb2 ! 1) = - 500000100
        \<and> global_power (hb_log hb2 ! 1) = - 500000100
        \<and> window_power (hb_log hb2 ! 1) = - 500000100)"
proof -
  define hb1 where "hb1 = fst (projr (heartbeat_acc
          (the (heartbeat_acc_pow_init (int 1) (int 2) False (zero_mem 1 2))) 0 5000000 0 1))"
  have run: "heartbeats (the (heartbeat_acc_pow_init (int 1) (int 2) False (zero_mem 1 2)))
        [call 0 5000000 0 1] = Inr hb1"
    unfolding hb1_def
    by (simp add: heartbeat_acc_pow_init_def zero_mem_def heartbeat_acc_def in_bounds_def
          Let_def call_def)
  have f: "last_energy hb1 = 5" "total_energy hb1 = 0" "last_timestamp hb1 = 0"
    "first_timestamp hb1 = 0" "buffer_index (state hb1) = 1" "counter (state hb1) = 1"
    unfolding hb1_def
    by (simp_all add: heartbeat_acc_pow_init_def zero_mem_def heartbeat_acc_def in_bounds_def
          Let_def)
  have clock: "\<forall>c\<in>set [call 0 5000000 0 1]. c_time c \<noteq> -1" by (simp add: call_def)
  have inc: "sorted_wrt (<) (map c_time [call 0 5000000 0 1] @ [10])" by (simp add: call_def)
  have tr: "trailing (Suc 0) [x] = [x]" for x :: real by (simp add: trailing_def)
  obtain hb2 where h: "heartbeat_acc hb1 10 (-1) 7 1 = Inr (hb2, 10)"
      "last_energy hb2 = -1 / 1000000"
      "counter (state hb2) = counter (state hb1) + 1"
      "total_energy hb2 = total_energy hb1 + (-1 / 1000000 - last_energy hb1)"
      "last_window_energy hb2
          = sum_list (trailing 1 (deltas (map joules [call 0 5000000 0 1])
                @ [-1 / 1000000 - last_energy hb1]))"
      "beat (hb_log hb2 ! nat (buffer_index (state hb1))) = counter (state hb1)"
      "timestamp (hb_log hb2 ! nat (buffer_index (state hb1))) = 10"
      "instant_power (hb_log hb2 ! nat (buffer_index (state hb1)))
          = (-1 / 1000000 - last_energy hb1) / real_of_int (10 - last_timestamp hb1)
              * 1000000000"
      "global_power (hb_log hb2 ! nat (buffer_index (state hb1)))
          = total_energy hb2 / real_of_int (10 - first_timestamp hb1) * 1000000000"
      "window_power (hb_log hb2 ! nat (buffer_index (state hb1)))
          = last_window_energy hb2 / (last_window_time hb2 / 1000000000)"
      "0 < last_window_time hb2"
    using backend_error_consumed[OF zero_mem_init _ _ clock run,
        of "hb_energy_init_osp 0" 0 10 10 "-1" 7 1]
    by (auto simp: call_def)
  have wt: "last_window_time hb2 = 10"
    using h(1) unfolding hb1_def
    by (simp add: heartbeat_acc_pow_init_def zero_mem_def heartbeat_acc_def in_bounds_def
          Let_def hb_window_average_accuracy_def) auto
  have dev: "snd (hb_energy_read_total_osp ((hb_energy_init_osp 0)\<lparr>device := False\<rparr>) 0 10) = -1"
    by (simp add: hb_energy_read_total_osp_def)
  show ?thesis
    using h run zero_mem_init[of 1 2 False] dev
    unfolding hb1_def[symmetric]
    by (simp add: f wt tr call_def)
qed

end
